theory Spec2Isabelle
  imports Main "HOL-Library.Word" "HOL-Library.Multiset"
begin

unbundle bit_operations_syntax

section \<open>The status-log relay of osquery/logger/logger.cpp\<close>

text \<open>
  A shallow embedding of \<^verbatim>\<open>src/osquery/logger/logger.cpp\<close>. Every function of the
  source that takes one of the file's mutexes is one atomic function on the state here;
  what the file calls outside itself (Glog, the plugin registry, Boost's JSON writer and
  reader, the flags) is a field of \<open>Env\<close> or a recorded call.
\<close>

subsection \<open>Data\<close>

text \<open>
  Modelled from the spec: the enumeration \<^verbatim>\<open>StatusLogSeverity\<close> and the struct
  \<^verbatim>\<open>StatusLogLine\<close> are declared in \<^verbatim>\<open>osquery/logger.h\<close>, which is not among the
  sources. The spec gives the severities INFO, WARNING, ERROR, FATAL in this order, a
  source line that is an int and a unix time that is an unsigned integer. An enumeration
  of C++ is its underlying integer, so a severity is a 32-bit value with four named
  constants, numbered from 0.
\<close>

type_synonym StatusLogSeverity = "32 word"

definition O_INFO :: StatusLogSeverity where "O_INFO = 0"
definition O_WARNING :: StatusLogSeverity where "O_WARNING = 1"
definition O_ERROR :: StatusLogSeverity where "O_ERROR = 2"
definition O_FATAL :: StatusLogSeverity where "O_FATAL = 3"

record StatusLogLine =
  severity :: StatusLogSeverity
  filename :: string
  line :: "32 word"
  message :: string
  calendar_time :: string
  time :: "64 word"

text \<open>\<^verbatim>\<open>PluginRequest\<close> is a \<^verbatim>\<open>std::map<std::string, std::string>\<close>.\<close>

type_synonym PluginRequest = "string \<rightharpoonup> string"

text \<open>
  A \<^verbatim>\<open>std::future<void>\<close>: a handle on the shared state of one task, or no state at
  all once it has been moved from.
\<close>

datatype future = Task nat | NoState

text \<open>
  The members of the singleton \<^verbatim>\<open>BufferedLogSink\<close>, named as in the source without
  the trailing underscore. \<open>senders\<close> is the \<^verbatim>\<open>std::queue\<close>: its front is the head of
  the list, \<^verbatim>\<open>push\<close> appends.
\<close>

record BufferedLogSink =
  logs :: "StatusLogLine list"
  enabled :: bool
  active :: bool
  sinks :: "string list"
  primary :: string
  senders :: "future list"

text \<open>The sink as its constructor leaves it.\<close>

definition instance0 :: BufferedLogSink where
  "instance0 = \<lparr>logs = [], enabled = False, active = False, sinks = [],
     primary = [], senders = []\<rparr>"

subsection \<open>Forwarding plugins and the primary plugin\<close>

definition addPlugin :: "string \<Rightarrow> BufferedLogSink \<Rightarrow> BufferedLogSink" where
  "addPlugin name self = self\<lparr>sinks := sinks self @ [name]\<rparr>"

definition resetPlugins :: "BufferedLogSink \<Rightarrow> BufferedLogSink" where
  "resetPlugins self = self\<lparr>sinks := []\<rparr>"

definition enabledPlugins :: "BufferedLogSink \<Rightarrow> string list" where
  "enabledPlugins self = sinks self"

definition isPrimaryLogger :: "string \<Rightarrow> BufferedLogSink \<Rightarrow> bool" where
  "isPrimaryLogger plugin self = (primary self = [] \<or> plugin = primary self)"

definition setPrimary :: "string \<Rightarrow> BufferedLogSink \<Rightarrow> BufferedLogSink" where
  "setPrimary plugin self =
     (if primary self = [] then self\<lparr>primary := plugin\<rparr> else self)"

subsection \<open>Attaching and enabling\<close>

text \<open>
  \<^verbatim>\<open>google::AddLogSink\<close> and \<^verbatim>\<open>google::RemoveLogSink\<close> are called exactly where
  \<open>active\<close> is set and cleared, so \<open>active\<close> is also whether the sink is attached.
\<close>

definition setUp :: "BufferedLogSink \<Rightarrow> BufferedLogSink" where
  "setUp self = (if \<not> active self then self\<lparr>active := True\<rparr> else self)"

definition disable :: "BufferedLogSink \<Rightarrow> BufferedLogSink" where
  "disable self =
     (if enabled self
      then (let self1 = self\<lparr>enabled := False\<rparr>
            in if active self1 then self1\<lparr>active := False\<rparr> else self1)
      else self)"

definition enable :: "BufferedLogSink \<Rightarrow> BufferedLogSink" where
  "enable self =
     (if \<not> enabled self
      then (let self1 = self\<lparr>enabled := True\<rparr>
            in if \<not> active self1 then self1\<lparr>active := True\<rparr> else self1)
      else self)"

datatype lifecycle_call = SetUp | Enable | Disable

fun lifecycle :: "BufferedLogSink \<Rightarrow> lifecycle_call \<Rightarrow> BufferedLogSink" where
  "lifecycle self SetUp = setUp self"
| "lifecycle self Enable = enable self"
| "lifecycle self Disable = disable self"

subsection \<open>The property tree and its translators\<close>

text \<open>
  A \<^verbatim>\<open>boost::property_tree::ptree\<close>: a node holds its own data, a string, and an
  ordered list of children, each under a key; keys may repeat.
\<close>

datatype ptree = Node (data: string) (children: "(string \<times> ptree) list")

text \<open>
  \<^verbatim>\<open>ptree::put(path, value)\<close> for a path of one key (none of the keys used here holds
  the separator \<^verbatim>\<open>.\<close>): the first child under the key gets the value as its data; when
  there is none, a new child is pushed at the back.
\<close>

fun put_child_value :: "string \<Rightarrow> string \<Rightarrow> (string \<times> ptree) list \<Rightarrow> (string \<times> ptree) list" where
  "put_child_value k v [] = [(k, Node v [])]"
| "put_child_value k v ((k', c) # cs) =
     (if k' = k then (k', Node v (children c)) # cs else (k', c) # put_child_value k v cs)"

definition put :: "string \<Rightarrow> string \<Rightarrow> ptree \<Rightarrow> ptree" where
  "put k v t = Node (data t) (put_child_value k v (children t))"

definition push_back :: "string \<times> ptree \<Rightarrow> ptree \<Rightarrow> ptree" where
  "push_back kc t = Node (data t) (children t @ [kc])"

text \<open>\<^verbatim>\<open>get_child_optional(path)\<close> for a path of one key: the first child under it.\<close>

definition get_child_optional :: "string \<Rightarrow> ptree \<Rightarrow> ptree option" where
  "get_child_optional k t = map_of (children t) k"

text \<open>
  The stream translator that \<^verbatim>\<open>put\<close> and \<^verbatim>\<open>get\<close> use for a number: \<^verbatim>\<open>put\<close> writes
  it with \<^verbatim>\<open>operator<<\<close>, in decimal, a negative int with a minus sign; \<^verbatim>\<open>get\<close> reads it
  with \<^verbatim>\<open>operator>>\<close> (leading white space skipped, an optional sign, decimal digits),
  skips trailing white space, and yields nothing unless the digits are there, the value
  fits the type and the end of the string is reached.
\<close>

definition digit_char :: "nat \<Rightarrow> char" where
  "digit_char d = ''0123456789'' ! d"

fun show_nat :: "nat \<Rightarrow> string" where
  "show_nat n =
     (if n < 10 then [digit_char n] else show_nat (n div 10) @ [digit_char (n mod 10)])"

definition is_space :: "char \<Rightarrow> bool" where
  "is_space c = (c \<in> set [CHR '' '', CHR 0x09, CHR 0x0A, CHR 0x0B, CHR 0x0C, CHR 0x0D])"

definition is_digit :: "char \<Rightarrow> bool" where
  "is_digit c = (48 \<le> (of_char c :: nat) \<and> (of_char c :: nat) \<le> 57)"

definition digits_value :: "string \<Rightarrow> nat" where
  "digits_value ds = foldl (\<lambda>n c. 10 * n + (of_char c - 48)) 0 ds"

definition put_value_int :: "32 word \<Rightarrow> string" where
  "put_value_int v =
     (if sint v < 0 then CHR ''-'' # show_nat (nat (- sint v)) else show_nat (nat (sint v)))"

definition put_value_size_t :: "64 word \<Rightarrow> string" where
  "put_value_size_t v = show_nat (unat v)"

definition get_value_int :: "string \<Rightarrow> 32 word option" where
  "get_value_int s =
     (let s1 = dropWhile is_space s;
          negative = (s1 \<noteq> [] \<and> hd s1 = CHR ''-'');
          s2 = (if s1 \<noteq> [] \<and> (hd s1 = CHR ''-'' \<or> hd s1 = CHR ''+'') then tl s1 else s1);
          ds = takeWhile is_digit s2;
          rest = dropWhile is_space (dropWhile is_digit s2);
          v = (if negative then - int (digits_value ds) else int (digits_value ds))
      in if ds = [] \<or> rest \<noteq> [] \<or> v < - (2 ^ 31) \<or> 2 ^ 31 \<le> v then None
         else Some (word_of_int v))"

text \<open>An unsigned type takes a minus sign too: the value is negated in the type.\<close>

definition get_value_size_t :: "string \<Rightarrow> 64 word option" where
  "get_value_size_t s =
     (let s1 = dropWhile is_space s;
          negative = (s1 \<noteq> [] \<and> hd s1 = CHR ''-'');
          s2 = (if s1 \<noteq> [] \<and> (hd s1 = CHR ''-'' \<or> hd s1 = CHR ''+'') then tl s1 else s1);
          ds = takeWhile is_digit s2;
          rest = dropWhile is_space (dropWhile is_digit s2);
          m = digits_value ds
      in if ds = [] \<or> rest \<noteq> [] \<or> 2 ^ 64 \<le> m then None
         else Some (if negative then - word_of_nat m else word_of_nat m))"

text \<open>\<^verbatim>\<open>get<T>(path, default_value)\<close>: the default when the child or its value is missing.\<close>

definition get_int :: "string \<Rightarrow> 32 word \<Rightarrow> ptree \<Rightarrow> 32 word" where
  "get_int k dflt t =
     (case get_child_optional k t of
        None \<Rightarrow> dflt
      | Some c \<Rightarrow> (case get_value_int (data c) of None \<Rightarrow> dflt | Some v \<Rightarrow> v))"

definition get_size_t :: "string \<Rightarrow> 64 word \<Rightarrow> ptree \<Rightarrow> 64 word" where
  "get_size_t k dflt t =
     (case get_child_optional k t of
        None \<Rightarrow> dflt
      | Some c \<Rightarrow> (case get_value_size_t (data c) of None \<Rightarrow> dflt | Some v \<Rightarrow> v))"

definition get_string :: "string \<Rightarrow> string \<Rightarrow> ptree \<Rightarrow> string" where
  "get_string k dflt t =
     (case get_child_optional k t of None \<Rightarrow> dflt | Some c \<Rightarrow> data c)"

subsection \<open>The intermediate log as a request\<close>

text \<open>
  \<^verbatim>\<open>pt::write_json\<close> and \<^verbatim>\<open>pt::read_json\<close> are Boost's: the writer is a function from
  trees to text, the reader a function from text to a tree, or to nothing where the
  source catches \<^verbatim>\<open>json_parser_error\<close>.
\<close>

record JSON =
  write_json :: "ptree \<Rightarrow> string"
  read_json :: "string \<Rightarrow> ptree option"

definition log_item_tree :: "StatusLogLine \<Rightarrow> ptree" where
  "log_item_tree log_item =
     (let child = Node [] [];
          child = put ''s'' (put_value_int (severity log_item)) child;
          child = put ''f'' (filename log_item) child;
          child = put ''i'' (put_value_int (line log_item)) child;
          child = put ''m'' (message log_item) child;
          child = put ''c'' (calendar_time log_item) child;
          child = put ''u'' (put_value_size_t (time log_item)) child
      in child)"

definition log_tree :: "StatusLogLine list \<Rightarrow> ptree" where
  "log_tree log =
     foldl (\<lambda>tree log_item. push_back ([], log_item_tree log_item) tree) (Node [] []) log"

definition serializeIntermediateLog ::
  "JSON \<Rightarrow> StatusLogLine list \<Rightarrow> PluginRequest \<Rightarrow> PluginRequest" where
  "serializeIntermediateLog json log request =
     request(''log'' \<mapsto> write_json json (log_tree log))"

definition log_line_of :: "ptree \<Rightarrow> StatusLogLine" where
  "log_line_of item =
     \<lparr>severity = get_int ''s'' O_INFO item,
      filename = get_string ''f'' ''<unknown>'' item,
      line = get_int ''i'' 0 item,
      message = get_string ''m'' [] item,
      calendar_time = get_string ''c'' [] item,
      time = get_size_t ''u'' 0 item\<rparr>"

text \<open>
  The source pushes onto the vector it is handed, so the log so far is an argument;
  \<^verbatim>\<open>tree.get_child("")\<close> is the tree itself.
\<close>

definition deserializeIntermediateLog ::
  "JSON \<Rightarrow> PluginRequest \<Rightarrow> StatusLogLine list \<Rightarrow> StatusLogLine list" where
  "deserializeIntermediateLog json request log =
     (case request ''log'' of
        None \<Rightarrow> log
      | Some text \<Rightarrow>
          (case read_json json text of
             None \<Rightarrow> log
           | Some tree \<Rightarrow> log @ map (\<lambda>item. log_line_of (snd item)) (children tree)))"

subsection \<open>What the file calls outside itself\<close>

text \<open>
  \<^verbatim>\<open>Status(code)\<close> and \<^verbatim>\<open>Status(code, message)\<close>; the class is declared outside the
  sources, so a status built without a message carries none here.
\<close>

record Status =
  getCode :: int
  getMessage :: "string option"

definition Status1 :: "int \<Rightarrow> Status" where
  "Status1 c = \<lparr>getCode = c, getMessage = None\<rparr>"

definition Status2 :: "int \<Rightarrow> string \<Rightarrow> Status" where
  "Status2 c m = \<lparr>getCode = c, getMessage = Some m\<rparr>"

definition ok :: "Status \<Rightarrow> bool" where
  "ok status = (getCode status = 0)"

text \<open>
  A call of the registry, as the source writes it: \<^verbatim>\<open>Registry::call("logger", request)\<close>
  and \<^verbatim>\<open>Registry::call("logger", request, response)\<close> name no plugin;
  \<^verbatim>\<open>Registry::call("logger", item, request)\<close> names one.
\<close>

datatype registry_call =
  Call_logger PluginRequest
| Call_logger_item string PluginRequest

text \<open>
  The flags, the tool type, the platform, the registry's active logger setting, Boost's
  JSON functions, the two feature bits of \<^verbatim>\<open>osquery/logger.h\<close> (not among the sources)
  and the status the registry answers a call with, which may depend on the calls made
  before it.
\<close>

record Env =
  FLAGS_disable_logging :: bool
  FLAGS_logger_status_sync :: bool
  FLAGS_logger_secondary_status_only :: bool
  FLAGS_log_result_events :: bool
  kToolType_is_DAEMON :: bool
  isPlatform_WINDOWS :: bool
  getActive_logger :: string
  boost_json :: JSON
  LOGGER_FEATURE_LOGSTATUS :: "32 word"
  LOGGER_FEATURE_LOGEVENT :: "32 word"
  Registry_call_status :: "registry_call list \<Rightarrow> registry_call \<Rightarrow> Status"

definition Registry_call ::
  "Env \<Rightarrow> registry_call \<Rightarrow> registry_call list \<Rightarrow> Status \<times> registry_call list" where
  "Registry_call env c calls = (Registry_call_status env calls c, calls @ [c])"

text \<open>
  Modelled from the spec: \<^verbatim>\<open>osquery::split\<close> is defined in the core's conversions, not
  among the sources. The spec has the active logger setting be a comma-separated list of
  backend names: the names are the non-empty pieces between the delimiters.
\<close>

fun split_from :: "string \<Rightarrow> string \<Rightarrow> string \<Rightarrow> string list" where
  "split_from delim piece [] = (if piece = [] then [] else [piece])"
| "split_from delim piece (c # cs) =
     (if c \<in> set delim
      then (if piece = [] then [] else [piece]) @ split_from delim [] cs
      else split_from delim (piece @ [c]) cs)"

definition split :: "string \<Rightarrow> string \<Rightarrow> string list" where
  "split s delim = split_from delim [] s"

subsection \<open>Relaying the buffered status logs\<close>

text \<open>
  The sink together with what its relays leave behind: the detached threads whose sender
  has not run yet (by number), how many threads were ever started, the registry calls
  made so far, the futures waited on, and, for the statements below only, the buffer
  contents each sender serialized and cleared (\<open>drained\<close>).
\<close>

datatype wait = Wait future | Wait_for future nat

record World =
  sink :: BufferedLogSink
  detached :: "nat list"
  started :: nat
  registry_calls :: "registry_call list"
  waits :: "wait list"
  drained :: "StatusLogLine list list"

definition world0 :: World where
  "world0 = \<lparr>sink = instance0, detached = [], started = 0, registry_calls = [],
     waits = [], drained = []\<rparr>"

text \<open>
  The lambda \<open>sender\<close> of \<^verbatim>\<open>relayStatusLogs\<close>: under the lock of the buffer it serializes
  the buffer into the request, drops the last character of the text and clears the
  buffer; then it calls the registry once for every name of the active logger setting
  that is among the enabled plugins.
\<close>

definition sender :: "Env \<Rightarrow> World \<Rightarrow> World" where
  "sender env w =
     (let request = [''status'' \<mapsto> ''true''];
          status_logs = logs (sink w);
          request = serializeIntermediateLog (boost_json env) status_logs request;
          request = (case request ''log'' of
                       None \<Rightarrow> request
                     | Some text \<Rightarrow>
                         if text \<noteq> [] then request(''log'' \<mapsto> butlast text) else request);
          w = w\<lparr>sink := (sink w)\<lparr>logs := []\<rparr>, drained := drained w @ [status_logs]\<rparr>;
          logger_plugin = getActive_logger env;
          called = concat (map (\<lambda>logger.
                     if logger \<in> set (enabledPlugins (sink w)) then [Call_logger request]
                     else [])
                   (split logger_plugin '',''))
      in w\<lparr>registry_calls := registry_calls w @ called\<rparr>)"

text \<open>
  \<^verbatim>\<open>relayStatusLogs(async)\<close>: with \<open>async\<close> the sender runs in the caller; without, a
  thread is detached for it and its future is pushed onto \<open>senders\<close>.
\<close>

definition relayStatusLogs :: "Env \<Rightarrow> bool \<Rightarrow> World \<Rightarrow> World" where
  "relayStatusLogs env async w =
     (if FLAGS_disable_logging env then w
      else if logs (sink w) = [] then w
      else if async then sender env w
      else w\<lparr>detached := detached w @ [started w],
             started := Suc (started w),
             sink := (sink w)\<lparr>senders := senders (sink w) @ [Task (started w)]\<rparr>\<rparr>)"

text \<open>
  \<^verbatim>\<open>BufferedLogSink::send\<close>; \<open>log_item\<close> is the line the source builds from its
  arguments. \<open>append_log\<close> is its first block, under the lock of the buffer.
\<close>

definition append_log :: "StatusLogLine \<Rightarrow> World \<Rightarrow> World" where
  "append_log log_item w = w\<lparr>sink := (sink w)\<lparr>logs := logs (sink w) @ [log_item]\<rparr>\<rparr>"

definition send :: "Env \<Rightarrow> StatusLogLine \<Rightarrow> World \<Rightarrow> World" where
  "send env log_item w =
     (let w = append_log log_item w
      in if enabled (sink w) \<and> \<not> kToolType_is_DAEMON env
         then relayStatusLogs env (FLAGS_logger_status_sync env) w
         else w)"

text \<open>
  \<^verbatim>\<open>BufferedLogSink::WaitTillSent\<close>: \<^verbatim>\<open>std::move(self.senders.back())\<close> takes the state
  of the last future of the queue and leaves that element without state;
  \<^verbatim>\<open>self.senders.pop()\<close> removes the front of the queue.
\<close>

definition WaitTillSent :: "Env \<Rightarrow> BufferedLogSink \<Rightarrow> BufferedLogSink \<times> wait option" where
  "WaitTillSent env self =
     (if senders self = [] then (self, None)
      else (let first = last (senders self);
                moved = butlast (senders self) @ [NoState];
                self = self\<lparr>senders := tl moved\<rparr>
            in (self, Some (if \<not> isPlatform_WINDOWS env then Wait first
                            else Wait_for first 100))))"

text \<open>
  What can happen to the sink, in any order: the calls of its interface, a detached
  thread running its sender (\<open>Run\<close>), and the two blocks that hold the lock of the buffer
  on their own (\<open>Append\<close>, \<open>Sender\<close>), for a thread that is preempted between its blocks.
\<close>

datatype event =
  Send StatusLogLine
| Relay bool
| Run nat
| Append StatusLogLine
| Sender
| WaitSent
| Lifecycle lifecycle_call
| AddPlugin string
| ResetPlugins
| SetPrimary string

fun step :: "Env \<Rightarrow> World \<Rightarrow> event \<Rightarrow> World" where
  "step env w (Send log_item) = send env log_item w"
| "step env w (Relay async) = relayStatusLogs env async w"
| "step env w (Run t) =
     (if t \<in> set (detached w) then sender env (w\<lparr>detached := remove1 t (detached w)\<rparr>)
      else w)"
| "step env w (Append log_item) = append_log log_item w"
| "step env w Sender = sender env w"
| "step env w WaitSent =
     (case WaitTillSent env (sink w) of
        (self, None) \<Rightarrow> w\<lparr>sink := self\<rparr>
      | (self, Some wt) \<Rightarrow> w\<lparr>sink := self, waits := waits w @ [wt]\<rparr>)"
| "step env w (Lifecycle c) = w\<lparr>sink := lifecycle (sink w) c\<rparr>"
| "step env w (AddPlugin name) = w\<lparr>sink := addPlugin name (sink w)\<rparr>"
| "step env w ResetPlugins = w\<lparr>sink := resetPlugins (sink w)\<rparr>"
| "step env w (SetPrimary name) = w\<lparr>sink := setPrimary name (sink w)\<rparr>"

definition run :: "Env \<Rightarrow> World \<Rightarrow> event list \<Rightarrow> World" where
  "run env w evs = foldl (step env) w evs"

text \<open>The lines handed to the sink by a sequence of events, in order.\<close>

fun appended :: "event list \<Rightarrow> StatusLogLine list" where
  "appended [] = []"
| "appended (Send log_item # evs) = log_item # appended evs"
| "appended (Append log_item # evs) = log_item # appended evs"
| "appended (_ # evs) = appended evs"

text \<open>
  For the statements about what a relay hands to the registry: the request a call
  carries; the request a sender builds from the batch it takes; the names of the active
  logger setting that are among the enabled plugins, one call of the sender each; the
  lines a list of calls carries, each request decoded as a plugin's \<open>call\<close> decodes it;
  and the events that leave the enabled plugins as they are.
\<close>

fun request_of :: "registry_call \<Rightarrow> PluginRequest" where
  "request_of (Call_logger request) = request"
| "request_of (Call_logger_item item request) = request"

definition relayed_request :: "Env \<Rightarrow> StatusLogLine list \<Rightarrow> PluginRequest" where
  "relayed_request env batch =
     [''status'' \<mapsto> ''true'',
      ''log'' \<mapsto> butlast (write_json (boost_json env) (log_tree batch))]"

definition forwarding :: "Env \<Rightarrow> BufferedLogSink \<Rightarrow> string list" where
  "forwarding env self =
     filter (\<lambda>logger. logger \<in> set (enabledPlugins self)) (split (getActive_logger env) '','')"

definition delivered_lines :: "Env \<Rightarrow> registry_call list \<Rightarrow> StatusLogLine list" where
  "delivered_lines env calls =
     concat (map (\<lambda>c. deserializeIntermediateLog (boost_json env) (request_of c) []) calls)"

fun keeps_plugins :: "event \<Rightarrow> bool" where
  "keeps_plugins (AddPlugin name) = False"
| "keeps_plugins ResetPlugins = False"
| "keeps_plugins _ = True"

subsection \<open>The call of a logger plugin\<close>

text \<open>
  A \<^verbatim>\<open>LoggerPlugin\<close>: its name, its process name and its virtual members, each a
  function to the status it returns. Modelled from the spec: \<^verbatim>\<open>setProcessName\<close> and
  \<^verbatim>\<open>name\<close> are declared outside the sources; the spec has \<^verbatim>\<open>init\<close> called with the
  value of the request's \<^verbatim>\<open>init\<close> key as its name, so the one stores the process name
  and the other reads it.
\<close>

record LoggerPlugin =
  getName :: string
  process_name :: string
  plugin_logString :: "string \<Rightarrow> Status"
  plugin_logSnapshot :: "string \<Rightarrow> Status"
  plugin_logStatus :: "StatusLogLine list \<Rightarrow> Status"
  plugin_logEvent :: "string \<Rightarrow> Status"
  usesLogStatus :: bool
  usesLogEvent :: bool

definition setProcessName :: "string \<Rightarrow> LoggerPlugin \<Rightarrow> LoggerPlugin" where
  "setProcessName name this = this\<lparr>process_name := name\<rparr>"

text \<open>The members a call invokes, with their arguments.\<close>

datatype invocation =
  LogString string
| LogSnapshot string
| Init string "StatusLogLine list"
| LogStatus "StatusLogLine list"
| LogEvent string

text \<open>
  \<^verbatim>\<open>LoggerPlugin::call\<close>: the status returned, the plugin afterwards and the members
  invoked. \<open>features\<close> is a \<^verbatim>\<open>size_t\<close>; each feature bit is an int, converted to it
  before the \<^verbatim>\<open>|=\<close>, and the result is cast back to int.
\<close>

definition call ::
  "Env \<Rightarrow> BufferedLogSink \<Rightarrow> LoggerPlugin \<Rightarrow> PluginRequest \<Rightarrow>
   Status \<times> LoggerPlugin \<times> invocation list" where
  "call env self this request =
     (if FLAGS_logger_secondary_status_only env
         \<and> \<not> isPrimaryLogger (getName this) self
         \<and> (request ''string'' \<noteq> None \<or> request ''snapshot'' \<noteq> None)
      then (Status2 0 ''Logging disabled to secondary plugins'', this, [])
      else
        (let intermediate_logs = []
         in case request ''string'' of
              Some m \<Rightarrow> (plugin_logString this m, this, [LogString m])
            | None \<Rightarrow>
           (case request ''snapshot'' of
              Some j \<Rightarrow> (plugin_logSnapshot this j, this, [LogSnapshot j])
            | None \<Rightarrow>
           (case request ''init'' of
              Some n \<Rightarrow>
                (let intermediate_logs =
                       deserializeIntermediateLog (boost_json env) request intermediate_logs;
                     this = setProcessName n this
                 in (Status1 0, this, [Init (process_name this) intermediate_logs]))
            | None \<Rightarrow>
           (case request ''status'' of
              Some _ \<Rightarrow>
                (let intermediate_logs =
                       deserializeIntermediateLog (boost_json env) request intermediate_logs
                 in (plugin_logStatus this intermediate_logs, this,
                     [LogStatus intermediate_logs]))
            | None \<Rightarrow>
           (case request ''event'' of
              Some e \<Rightarrow> (plugin_logEvent this e, this, [LogEvent e])
            | None \<Rightarrow>
           (if request ''action'' = Some ''features''
            then (let features = (0 :: 64 word);
                      features = features OR
                        (if usesLogStatus this then scast (LOGGER_FEATURE_LOGSTATUS env) else 0);
                      features = features OR
                        (if usesLogEvent this then scast (LOGGER_FEATURE_LOGEVENT env) else 0)
                  in (Status1 (sint (ucast features :: 32 word)), this, []))
            else (Status2 1 ''Unsupported call to logger plugin'', this, []))))))))"

subsection \<open>Logging strings and query results\<close>

definition logString ::
  "Env \<Rightarrow> string \<Rightarrow> string \<Rightarrow> string \<Rightarrow> registry_call list \<Rightarrow>
   Status \<times> registry_call list" where
  "logString env msg category receiver calls =
     (if FLAGS_disable_logging env then (Status2 0 ''Logging disabled'', calls)
      else Registry_call env
             (Call_logger_item receiver [''string'' \<mapsto> msg, ''category'' \<mapsto> category])
             calls)"

text \<open>The loop of \<^verbatim>\<open>logQueryLogItem\<close> over the serialized items.\<close>

fun log_json_items ::
  "Env \<Rightarrow> string \<Rightarrow> string list \<Rightarrow> Status \<Rightarrow> registry_call list \<Rightarrow>
   Status \<times> registry_call list" where
  "log_json_items env receiver [] status calls = (status, calls)"
| "log_json_items env receiver (json # json_items) status calls =
     (if json \<noteq> [] \<and> last json = CHR 0x0A
      then (case logString env (butlast json) ''event'' receiver calls of
              (status', calls') \<Rightarrow> log_json_items env receiver json_items status' calls')
      else log_json_items env receiver json_items status calls)"

text \<open>
  \<^verbatim>\<open>logQueryLogItem(results, receiver)\<close>. The two serializers are defined outside the
  sources: \<open>events_json\<close> gives the status and the items that
  \<^verbatim>\<open>serializeQueryLogItemAsEventsJSON\<close> leaves, \<open>item_json\<close> the status and the string of
  \<^verbatim>\<open>serializeQueryLogItemJSON\<close>.
\<close>

definition logQueryLogItem ::
  "Env \<Rightarrow> ('q \<Rightarrow> Status \<times> string list) \<Rightarrow> ('q \<Rightarrow> Status \<times> string) \<Rightarrow>
   'q \<Rightarrow> string \<Rightarrow> registry_call list \<Rightarrow> Status \<times> registry_call list" where
  "logQueryLogItem env events_json item_json results receiver calls =
     (if FLAGS_disable_logging env then (Status2 0 ''Logging disabled'', calls)
      else
        (let (status, json_items) =
               (if FLAGS_log_result_events env then events_json results
                else (case item_json results of (status, json) \<Rightarrow> (status, [json])))
         in if \<not> ok status then (status, calls)
            else log_json_items env receiver json_items status calls))"

subsection \<open>Sample surroundings\<close>

text \<open>
  Concrete values to run the statements on; nothing of the source is modelled here. The
  writer prints a tree as compact JSON text, every value a string, with a final newline,
  and the reader reads such text back; the environment has every flag off.
\<close>

fun escape :: "string \<Rightarrow> string" where
  "escape [] = []"
| "escape (c # cs) =
     (if c = CHR ''\"'' then CHR 0x5C # CHR ''\"'' # escape cs
      else if c = CHR 0x5C then CHR 0x5C # CHR 0x5C # escape cs
      else if c = CHR 0x0A then CHR 0x5C # CHR ''n'' # escape cs
      else c # escape cs)"

definition quoted :: "string \<Rightarrow> string" where
  "quoted s = CHR ''\"'' # escape s @ [CHR ''\"'']"

fun write_value :: "ptree \<Rightarrow> string"
  and write_members :: "(string \<times> ptree) list \<Rightarrow> string" where
  "write_value (Node d cs) = (if cs = [] then quoted d else CHR ''{'' # write_members cs @ [CHR ''}''])"
| "write_members [] = []"
| "write_members ((k, c) # cs) =
     quoted k @ CHR '':'' # write_value c @ (if cs = [] then [] else CHR '','' # write_members cs)"

definition sample_write_json :: "ptree \<Rightarrow> string" where
  "sample_write_json t = CHR ''{'' # write_members (children t) @ [CHR ''}'', CHR 0x0A]"

fun read_string :: "string \<Rightarrow> (string \<times> string) option" where
  "read_string [] = None"
| "read_string (c # cs) =
     (if c = CHR ''\"'' then Some ([], cs)
      else if c = CHR 0x5C then
        (case cs of
           [] \<Rightarrow> None
         | e # cs' \<Rightarrow>
             (if e = CHR ''\"'' \<or> e = CHR 0x5C \<or> e = CHR ''n''
              then map_option (\<lambda>(s, rest). ((if e = CHR ''n'' then CHR 0x0A else e) # s, rest)) (read_string cs')
              else None))
      else map_option (\<lambda>(s, rest). (c # s, rest)) (read_string cs))"

fun read_value :: "string \<Rightarrow> string \<Rightarrow> (ptree \<times> string) option"
  and read_members :: "string \<Rightarrow> string \<Rightarrow> ((string \<times> ptree) list \<times> string) option" where
  "read_value [] s = None"
| "read_value (f # n) s =
     (case dropWhile is_space s of
        [] \<Rightarrow> None
      | c # cs \<Rightarrow>
          if c = CHR ''\"'' then map_option (\<lambda>(d, rest). (Node d [], rest)) (read_string cs)
          else if c = CHR ''{'' then
            (case dropWhile is_space cs of
               [] \<Rightarrow> None
             | c' # cs' \<Rightarrow>
                 if c' = CHR ''}'' then Some (Node [] [], cs')
                 else map_option (\<lambda>(ms, rest). (Node [] ms, rest)) (read_members n (c' # cs')))
          else None)"
| "read_members [] s = None"
| "read_members (f # n) s =
     (case dropWhile is_space s of
        [] \<Rightarrow> None
      | c # cs \<Rightarrow>
          if c \<noteq> CHR ''\"'' then None
          else (case read_string cs of
                  None \<Rightarrow> None
                | Some (k, rest) \<Rightarrow>
                    (case dropWhile is_space rest of
                       [] \<Rightarrow> None
                     | c1 # rest1 \<Rightarrow>
                         if c1 \<noteq> CHR '':'' then None
                         else (case read_value n rest1 of
                                 None \<Rightarrow> None
                               | Some (v, rest2) \<Rightarrow>
                                   (case dropWhile is_space rest2 of
                                      [] \<Rightarrow> None
                                    | c2 # rest3 \<Rightarrow>
                                        if c2 = CHR ''}'' then Some ([(k, v)], rest3)
                                        else if c2 = CHR '','' then
                                          map_option (\<lambda>(ms, r). ((k, v) # ms, r)) (read_members n rest3)
                                        else None)))))"

definition sample_read_json :: "string \<Rightarrow> ptree option" where
  "sample_read_json s =
     (case read_value (CHR 0x20 # s) s of
        None \<Rightarrow> None
      | Some (t, rest) \<Rightarrow> if dropWhile is_space rest = [] then Some t else None)"

definition sample_json :: JSON where
  "sample_json = \<lparr>write_json = sample_write_json, read_json = sample_read_json\<rparr>"

definition sample_env :: Env where
  "sample_env =
     \<lparr>FLAGS_disable_logging = False,
      FLAGS_logger_status_sync = False,
      FLAGS_logger_secondary_status_only = False,
      FLAGS_log_result_events = False,
      kToolType_is_DAEMON = False,
      isPlatform_WINDOWS = False,
      getActive_logger = ''filesystem'',
      boost_json = sample_json,
      LOGGER_FEATURE_LOGSTATUS = 1,
      LOGGER_FEATURE_LOGEVENT = 2,
      Registry_call_status = (\<lambda>calls c. Status1 (int (length calls)))\<rparr>"

definition sample_plugin :: LoggerPlugin where
  "sample_plugin =
     \<lparr>getName = ''tls'',
      process_name = [],
      plugin_logString = (\<lambda>m. Status2 0 ''string''),
      plugin_logSnapshot = (\<lambda>j. Status2 0 ''snapshot''),
      plugin_logStatus = (\<lambda>log. Status2 0 ''status''),
      plugin_logEvent = (\<lambda>e. Status2 0 ''event''),
      usesLogStatus = True,
      usesLogEvent = False\<rparr>"

definition sample_line1 :: StatusLogLine where
  "sample_line1 =
     \<lparr>severity = O_WARNING, filename = ''logger.cpp'', line = 42, message = ''say \"hi\"'',
      calendar_time = ''Mon Jan  1 00:00:00 2018 UTC'', time = 1514764800\<rparr>"

definition sample_line2 :: StatusLogLine where
  "sample_line2 =
     \<lparr>severity = O_INFO, filename = ''init.cpp'', line = 7, message = ''started'',
      calendar_time = ''Mon Jan  1 00:00:01 2018 UTC'', time = 1514764801\<rparr>"

section \<open>Theorems\<close>

subsection \<open>The primary plugin\<close>

lemma primary_setPrimary_nonempty:
  "primary self \<noteq> [] \<Longrightarrow> setPrimary plugin self = self"
  by (simp add: setPrimary_def)

lemma foldl_setPrimary_nonempty:
  "primary self \<noteq> [] \<Longrightarrow> foldl (\<lambda>s p. setPrimary p s) self later = self"
  by (induction later) (simp_all add: primary_setPrimary_nonempty)

text \<open>
  C8. \<open>setPrimary\<close> writes the primary name only while it is empty: a sink whose
  primary name is not empty keeps it through any later calls, whatever their names.
  \<open>isPrimaryLogger\<close> is true exactly when the primary name is empty or is the name
  asked about. So once a first, non-empty name has been set on a sink with no primary,
  after any further calls \<open>isPrimaryLogger\<close> holds of that name and of no other.
\<close>

theorem setPrimary_first_caller_wins:
  "(primary self \<noteq> [] \<longrightarrow>
      primary (foldl (\<lambda>s p. setPrimary p s) self later) = primary self)
   \<and> (primary self = [] \<longrightarrow> primary (setPrimary first self) = first)
   \<and> isPrimaryLogger name self = (primary self = [] \<or> name = primary self)
   \<and> (primary self = [] \<and> first \<noteq> [] \<longrightarrow>
        isPrimaryLogger name (foldl (\<lambda>s p. setPrimary p s) (setPrimary first self) later)
          = (name = first))"
proof -
  have kept: "primary (foldl (\<lambda>s p. setPrimary p s) self later) = primary self"
    if "primary self \<noteq> []"
    using that by (simp add: foldl_setPrimary_nonempty)
  have written: "primary (setPrimary first self) = first" if "primary self = []"
    using that by (simp add: setPrimary_def)
  have after: "isPrimaryLogger name
      (foldl (\<lambda>s p. setPrimary p s) (setPrimary first self) later) = (name = first)"
    if "primary self = []" "first \<noteq> []"
  proof -
    have "primary (setPrimary first self) \<noteq> []"
      using that written by simp
    then have "foldl (\<lambda>s p. setPrimary p s) (setPrimary first self) later
        = setPrimary first self"
      by (rule foldl_setPrimary_nonempty)
    then show ?thesis
      using that written by (simp add: isPrimaryLogger_def)
  qed
  show ?thesis
    using kept written after by (simp add: isPrimaryLogger_def)
qed

theorem setPrimary_first_caller_wins_witness:
  "primary (foldl (\<lambda>s p. setPrimary p s) (setPrimary ''filesystem'' instance0)
      [''tls'', ''syslog'']) = ''filesystem''
   \<and> isPrimaryLogger ''filesystem''
        (foldl (\<lambda>s p. setPrimary p s) (setPrimary ''filesystem'' instance0)
          [''tls'', ''syslog''])
   \<and> \<not> isPrimaryLogger ''tls''
        (foldl (\<lambda>s p. setPrimary p s) (setPrimary ''filesystem'' instance0)
          [''tls'', ''syslog''])"
  using setPrimary_first_caller_wins
    [of "setPrimary ''filesystem'' instance0" "[''tls'', ''syslog'']" "''filesystem''" "''tls''"]
    setPrimary_first_caller_wins
    [of instance0 "[''tls'', ''syslog'']" "''filesystem''" "''tls''"]
    setPrimary_first_caller_wins
    [of instance0 "[''tls'', ''syslog'']" "''filesystem''" "''filesystem''"]
  by (simp add: instance0_def setPrimary_def)

subsection \<open>Attaching and enabling\<close>

lemma lifecycle_enabled_active:
  "enabled self \<longrightarrow> active self \<Longrightarrow> enabled (lifecycle self c) \<longrightarrow> active (lifecycle self c)"
  by (cases c) (simp_all add: setUp_def enable_def disable_def Let_def)

lemma foldl_lifecycle_enabled_active:
  "enabled self \<longrightarrow> active self \<Longrightarrow>
   enabled (foldl lifecycle self cs) \<longrightarrow> active (foldl lifecycle self cs)"
proof (induction cs arbitrary: self)
  case Nil
  then show ?case by simp
next
  case (Cons c cs)
  have "enabled (lifecycle self c) \<longrightarrow> active (lifecycle self c)"
    using Cons.prems by (rule lifecycle_enabled_active)
  then show ?case
    using Cons.IH [of "lifecycle self c"] by simp
qed

lemma buffering_only_kept:
  "active self \<and> \<not> enabled self \<Longrightarrow> set cs \<subseteq> {SetUp, Disable} \<Longrightarrow>
   foldl lifecycle self cs = self"
proof (induction cs)
  case Nil
  then show ?case by simp
next
  case (Cons c cs)
  have "lifecycle self c = self"
    using Cons.prems by (cases c) (simp_all add: setUp_def disable_def)
  then show ?case
    using Cons by simp
qed

text \<open>
  C9. After any sequence of \<open>setUp\<close>, \<open>enable\<close> and \<open>disable\<close> calls on the sink as
  constructed (not active, not enabled), enabled implies active; a further \<open>enable\<close>
  leaves the sink enabled and active; a \<open>disable\<close> of a sink that is not enabled changes
  nothing; so after \<open>setUp\<close> the sink is active and not enabled, and stays exactly so
  through any calls of \<open>disable\<close> and \<open>setUp\<close>; only a \<open>disable\<close> that follows an
  \<open>enable\<close> makes it inactive.
\<close>

theorem enabled_implies_active:
  "(enabled (foldl lifecycle instance0 cs) \<longrightarrow> active (foldl lifecycle instance0 cs))
   \<and> enabled (enable (foldl lifecycle instance0 cs))
   \<and> active (enable (foldl lifecycle instance0 cs))
   \<and> (\<not> enabled self \<longrightarrow> disable self = self)
   \<and> (set ds \<subseteq> {SetUp, Disable} \<longrightarrow>
        active (foldl lifecycle (setUp instance0) ds)
        \<and> \<not> enabled (foldl lifecycle (setUp instance0) ds))
   \<and> \<not> active (disable (enable (foldl lifecycle instance0 cs)))
   \<and> \<not> enabled (disable (enable (foldl lifecycle instance0 cs)))"
proof -
  let ?s = "foldl lifecycle instance0 cs"
  have inv: "enabled ?s \<longrightarrow> active ?s"
    by (rule foldl_lifecycle_enabled_active) (simp add: instance0_def)
  have en: "enabled (enable ?s) \<and> active (enable ?s)"
    using inv by (simp add: enable_def Let_def)
  have dis: "\<not> enabled self \<longrightarrow> disable self = self"
    by (simp add: disable_def)
  have buf: "active (foldl lifecycle (setUp instance0) ds)
      \<and> \<not> enabled (foldl lifecycle (setUp instance0) ds)"
    if "set ds \<subseteq> {SetUp, Disable}"
  proof -
    have start: "active (setUp instance0) \<and> \<not> enabled (setUp instance0)"
      by (simp add: setUp_def instance0_def)
    then have "foldl lifecycle (setUp instance0) ds = setUp instance0"
      using that by (rule buffering_only_kept)
    then show ?thesis using start by simp
  qed
  have pair: "\<not> active (disable (enable ?s)) \<and> \<not> enabled (disable (enable ?s))"
    using en by (simp add: disable_def Let_def)
  show ?thesis
    using inv en dis buf pair by blast
qed

theorem enabled_implies_active_witness:
  "enabled (foldl lifecycle instance0 [SetUp, Disable, Enable])
   \<and> active (foldl lifecycle instance0 [SetUp, Disable, Enable])
   \<and> disable (setUp instance0) = setUp instance0
   \<and> active (foldl lifecycle (setUp instance0) [Disable, SetUp, Disable])
   \<and> \<not> enabled (foldl lifecycle (setUp instance0) [Disable, SetUp, Disable])
   \<and> \<not> active (disable (enable (foldl lifecycle instance0 [SetUp, Disable, Enable])))"
  using enabled_implies_active
    [of "[SetUp, Disable, Enable]" "setUp instance0" "[Disable, SetUp, Disable]"]
  by (simp add: instance0_def setUp_def enable_def disable_def Let_def)

subsection \<open>Buffering and draining\<close>

lemma sender_registry_calls:
  "registry_calls (sender env w) = registry_calls w @
     replicate (length (filter (\<lambda>logger. logger \<in> set (sinks (sink w))) (split (getActive_logger env) '','')))
       (Call_logger [''status'' \<mapsto> ''true'',
          ''log'' \<mapsto> butlast (write_json (boost_json env) (log_tree (logs (sink w))))])"
proof -
  have *: "concat (map (\<lambda>x. if P x then [c] else []) xs) = replicate (length (filter P xs)) c"
    for P and xs :: "string list" and c :: registry_call
    by (induction xs) simp_all
  show ?thesis
    by (simp add: sender_def Let_def serializeIntermediateLog_def enabledPlugins_def *)
qed

lemma sender_drains:
  "logs (sink (sender env w)) = [] \<and> drained (sender env w) = drained w @ [logs (sink w)]"
  by (simp add: sender_def Let_def)

lemma relay_keeps: 
  "concat (drained (relayStatusLogs env a w)) @ logs (sink (relayStatusLogs env a w))
     = concat (drained w) @ logs (sink w)"
  by (simp add: relayStatusLogs_def sender_drains)

lemma send_keeps: 
  "concat (drained (send env r w)) @ logs (sink (send env r w))
     = concat (drained w) @ logs (sink w) @ [r]"
  by (simp add: send_def Let_def relay_keeps) (simp add: append_log_def)

lemma step_keeps:
  "concat (drained (step env w e)) @ logs (sink (step env w e))
     = concat (drained w) @ logs (sink w) @ appended [e]"
proof (cases e)
  case (Send r) then show ?thesis by (simp add: send_keeps)
next
  case (Relay a) then show ?thesis by (simp add: relay_keeps)
next
  case (Run t) then show ?thesis by (simp add: sender_drains)
next
  case (Append r) then show ?thesis by (simp add: append_log_def)
next
  case Sender then show ?thesis by (simp add: sender_drains)
next
  case WaitSent then show ?thesis
    by (simp add: WaitTillSent_def Let_def split: prod.splits option.splits if_splits)
next
  case (Lifecycle c) then show ?thesis
    by (cases c) (simp_all add: setUp_def enable_def disable_def Let_def)
next
  case (AddPlugin n) then show ?thesis by (simp add: addPlugin_def)
next
  case ResetPlugins then show ?thesis by (simp add: resetPlugins_def)
next
  case (SetPrimary n) then show ?thesis by (simp add: setPrimary_def)
qed

lemma appended_Cons: "appended (e # evs) = appended [e] @ appended evs"
  by (cases e) simp_all

lemma run_keeps:
  "concat (drained (run env w evs)) @ logs (sink (run env w evs))
     = concat (drained w) @ logs (sink w) @ appended evs"
proof (induction evs arbitrary: w)
  case Nil
  then show ?case by (simp add: run_def)
next
  case (Cons e evs)
  have "concat (drained (run env w (e # evs))) @ logs (sink (run env w (e # evs)))
      = concat (drained (step env w e)) @ logs (sink (step env w e)) @ appended evs"
    using Cons.IH [of "step env w e"] by (simp add: run_def)
  also have "\<dots> = concat (drained w) @ logs (sink w) @ appended [e] @ appended evs"
    using step_keeps [of env w e] by (metis append.assoc)
  finally show ?case 
    using appended_Cons [of e evs] by simp
qed

subsection \<open>Waiting for a detached relay\<close>

text \<open>
  C3, at a queue of two pending futures (two relays without \<open>async\<close>, each with a line
  in the buffer, leave it so): \<open>WaitTillSent\<close> waits on the future pushed last, not on
  the oldest; it removes the oldest, which nobody has waited on, and leaves the future it
  moved from in the queue, without state. The next call waits on that stateless future.
  On Windows the wait is the same but for 100 microseconds. With one pending future the
  call waits on it and empties the queue, and on an empty queue it does nothing.
\<close>

theorem WaitTillSent_waits_on_newest:
  "senders (sink (run (env\<lparr>FLAGS_disable_logging := False\<rparr>) world0
      [Append l1, Relay False, Append l2, Relay False])) = [Task 0, Task 1]
   \<and> WaitTillSent (env\<lparr>isPlatform_WINDOWS := False\<rparr>) (self\<lparr>senders := [Task 0, Task 1]\<rparr>)
       = (self\<lparr>senders := [NoState]\<rparr>, Some (Wait (Task 1)))
   \<and> WaitTillSent (env\<lparr>isPlatform_WINDOWS := False\<rparr>) (self\<lparr>senders := [NoState]\<rparr>)
       = (self\<lparr>senders := []\<rparr>, Some (Wait NoState))
   \<and> WaitTillSent (env\<lparr>isPlatform_WINDOWS := True\<rparr>) (self\<lparr>senders := [Task 0, Task 1]\<rparr>)
       = (self\<lparr>senders := [NoState]\<rparr>, Some (Wait_for (Task 1) 100))
   \<and> WaitTillSent (env\<lparr>isPlatform_WINDOWS := False\<rparr>) (self\<lparr>senders := [Task 0]\<rparr>)
       = (self\<lparr>senders := []\<rparr>, Some (Wait (Task 0)))
   \<and> WaitTillSent env (self\<lparr>senders := []\<rparr>) = (self\<lparr>senders := []\<rparr>, None)"
  by (simp add: run_def relayStatusLogs_def append_log_def world0_def instance0_def
      WaitTillSent_def Let_def)

subsection \<open>The calls of a relay\<close>

text \<open>
  C4, at the active logger setting \<^verbatim>\<open>A,B\<close> with both names among the enabled plugins:
  the sender calls the registry twice with the same request and names no plugin in
  either call. Whatever plugins the registry reaches with a call, as a function of the
  call, the two calls together do not reach \<^verbatim>\<open>A\<close> once and \<^verbatim>\<open>B\<close> once.
\<close>

theorem relay_calls_name_no_plugin:
  "registry_calls (sender (env\<lparr>getActive_logger := ''A,B''\<rparr>)
      (w\<lparr>sink := (sink w)\<lparr>sinks := [''A'', ''B'']\<rparr>, registry_calls := []\<rparr>))
     = [Call_logger [''status'' \<mapsto> ''true'',
          ''log'' \<mapsto> butlast (write_json (boost_json env) (log_tree (logs (sink w))))],
        Call_logger [''status'' \<mapsto> ''true'',
          ''log'' \<mapsto> butlast (write_json (boost_json env) (log_tree (logs (sink w))))]]
   \<and> (\<forall>reach :: registry_call \<Rightarrow> string list.
        mset (concat (map reach (registry_calls (sender (env\<lparr>getActive_logger := ''A,B''\<rparr>)
          (w\<lparr>sink := (sink w)\<lparr>sinks := [''A'', ''B'']\<rparr>, registry_calls := []\<rparr>)))))
        \<noteq> {#''A'', ''B''#})"
proof -
  let ?c = "Call_logger [''status'' \<mapsto> ''true'',
      ''log'' \<mapsto> butlast (write_json (boost_json env) (log_tree (logs (sink w))))]"
  let ?calls = "registry_calls (sender (env\<lparr>getActive_logger := ''A,B''\<rparr>)
      (w\<lparr>sink := (sink w)\<lparr>sinks := [''A'', ''B'']\<rparr>, registry_calls := []\<rparr>))"
  have calls: "?calls = [?c, ?c]"
    by (simp add: sender_registry_calls split_def)
  have "mset (concat (map reach ?calls)) \<noteq> {#''A'', ''B''#}" for reach :: "registry_call \<Rightarrow> string list"
  proof
    assume "mset (concat (map reach ?calls)) = {#''A'', ''B''#}"
    then have "mset (reach ?c) + mset (reach ?c) = {#''A'', ''B''#}"
      using calls by simp
    then have "count (mset (reach ?c) + mset (reach ?c)) ''A'' = count {#''A'', ''B''#} ''A''"
      by simp
    then have "count (mset (reach ?c)) ''A'' + count (mset (reach ?c)) ''A'' = 1"
      by simp
    then show False by presburger
  qed
  then show ?thesis using calls by blast
qed

subsection \<open>The intermediate log: encoding and decoding\<close>

declare show_nat.simps [simp del]

lemma digit_cases: "d < 10 \<Longrightarrow> d \<in> {0, 1, 2, 3, 4, 5, 6, 7, 8, 9::nat}"
  by auto

lemma is_digit_digit_char: "d < 10 \<Longrightarrow> is_digit (digit_char d)"
  using digit_cases [of d] by (auto simp: is_digit_def digit_char_def)

lemma of_char_digit_char: "d < 10 \<Longrightarrow> of_char (digit_char d) - 48 = (d::nat)"
  using digit_cases [of d] by (auto simp: digit_char_def)

lemma is_digit_not_space: "is_digit c \<Longrightarrow> \<not> is_space c"
  by (auto simp: is_digit_def is_space_def)

lemma is_digit_not_sign: "is_digit c \<Longrightarrow> c \<noteq> CHR ''-'' \<and> c \<noteq> CHR ''+''"
  by (auto simp: is_digit_def)

lemma show_nat_digits: "c \<in> set (show_nat n) \<Longrightarrow> is_digit c"
proof (induction n arbitrary: c rule: show_nat.induct)
  case (1 n)
  show ?case
  proof (cases "n < 10")
    case True
    then show ?thesis
      using "1.prems" by (subst (asm) show_nat.simps) (simp add: is_digit_digit_char)
  next
    case False
    then have "c \<in> set (show_nat (n div 10)) \<or> c = digit_char (n mod 10)"
      using "1.prems" by (subst (asm) show_nat.simps) auto
    then show ?thesis
      using "1.IH" False by (auto simp: is_digit_digit_char)
  qed
qed

lemma show_nat_nonempty: "show_nat n \<noteq> []"
  by (subst show_nat.simps) simp

lemma digits_value_snoc:
  "digits_value (ds @ [c]) = 10 * digits_value ds + (of_char c - 48)"
  by (simp add: digits_value_def)

lemma digits_value_show_nat: "digits_value (show_nat n) = n"
proof (induction n rule: show_nat.induct)
  case (1 n)
  show ?case
  proof (cases "n < 10")
    case True
    then show ?thesis
      by (subst show_nat.simps) (simp add: digits_value_def of_char_digit_char)
  next
    case False
    then have "digits_value (show_nat n)
        = 10 * digits_value (show_nat (n div 10)) + (of_char (digit_char (n mod 10)) - 48)"
      by (subst show_nat.simps) (simp add: digits_value_snoc)
    also have "\<dots> = 10 * (n div 10) + n mod 10"
      using "1.IH" False by (simp add: of_char_digit_char)
    finally show ?thesis by simp
  qed
qed

lemma dropWhile_hd: "xs \<noteq> [] \<Longrightarrow> \<not> P (hd xs) \<Longrightarrow> dropWhile P xs = xs"
  by (cases xs) simp_all

lemma show_nat_hd: "is_digit (hd (show_nat n))"
  using show_nat_nonempty [of n] show_nat_digits [of "hd (show_nat n)" n] by simp

lemma show_nat_takeWhile: "takeWhile is_digit (show_nat n) = show_nat n"
  by (simp add: show_nat_digits)

lemma show_nat_dropWhile: "dropWhile is_digit (show_nat n) = []"
  by (simp add: show_nat_digits)

lemma show_nat_skip_space: "dropWhile is_space (show_nat n) = show_nat n"
  by (rule dropWhile_hd) (simp_all add: show_nat_nonempty show_nat_hd is_digit_not_space)

lemma get_put_value_int: "get_value_int (put_value_int v) = Some v"
proof (cases "sint v < 0")
  case True
  have bound: "- (2 ^ 31) \<le> sint v"
    using sint_ge [of v] by simp
  have "\<not> is_space CHR ''-''"
    by (simp add: is_space_def)
  then show ?thesis
    using True bound
    by (simp add: get_value_int_def put_value_int_def Let_def show_nat_takeWhile
        show_nat_dropWhile digits_value_show_nat show_nat_nonempty)
next
  case False
  have bound: "sint v < 2 ^ 31"
    using sint_lt [of v] by simp
  have hd: "hd (show_nat (nat (sint v))) \<noteq> CHR ''-''" "hd (show_nat (nat (sint v))) \<noteq> CHR ''+''"
    using show_nat_hd [of "nat (sint v)"] is_digit_not_sign by blast+
  show ?thesis
    using False bound hd
    by (simp add: get_value_int_def put_value_int_def Let_def show_nat_skip_space
        show_nat_takeWhile show_nat_dropWhile digits_value_show_nat show_nat_nonempty)
qed

lemma get_put_value_size_t: "get_value_size_t (put_value_size_t v) = Some v"
proof -
  have bound: "unat v < 2 ^ 64"
    using unsigned_less [of v, where ?'a = nat] by simp
  have hd: "hd (show_nat (unat v)) \<noteq> CHR ''-''" "hd (show_nat (unat v)) \<noteq> CHR ''+''"
    using show_nat_hd [of "unat v"] is_digit_not_sign by blast+
  show ?thesis
    using bound hd
    by (simp add: get_value_size_t_def put_value_size_t_def Let_def show_nat_skip_space
        show_nat_takeWhile show_nat_dropWhile digits_value_show_nat show_nat_nonempty)
qed

lemma children_log_item_tree:
  "children (log_item_tree r) =
     [(''s'', Node (put_value_int (severity r)) []),
      (''f'', Node (filename r) []),
      (''i'', Node (put_value_int (line r)) []),
      (''m'', Node (message r) []),
      (''c'', Node (calendar_time r) []),
      (''u'', Node (put_value_size_t (time r)) [])]"
  by (simp add: log_item_tree_def put_def)

lemma log_line_of_log_item_tree: "log_line_of (log_item_tree r) = r"
  by (simp add: log_line_of_def get_int_def get_string_def get_size_t_def
      get_child_optional_def children_log_item_tree get_put_value_int get_put_value_size_t)

lemma children_foldl_push_back:
  "children (foldl (\<lambda>tree log_item. push_back ([], log_item_tree log_item) tree) t log)
     = children t @ map (\<lambda>log_item. ([], log_item_tree log_item)) log"
  by (induction log arbitrary: t) (simp_all add: push_back_def)

lemma children_log_tree:
  "children (log_tree log) = map (\<lambda>log_item. ([], log_item_tree log_item)) log"
  by (simp add: log_tree_def children_foldl_push_back)

lemmas sample_json_defs = sample_json_def sample_write_json_def sample_read_json_def
  quoted_def is_space_def

lemmas sample_tree_defs = log_tree_def log_item_tree_def put_def push_back_def
  put_value_int_def put_value_size_t_def digit_char_def show_nat.simps
  sample_line1_def sample_line2_def O_INFO_def O_WARNING_def

text \<open>
  C2. Decoding the request that encoding a batch produced gives back the batch: the same
  lines with the same severity, file, line, message, calendar time and unix time, in the
  same order, for a batch of any length and whatever request the encoding started from.
  The one hypothesis is on Boost: that its reader, given the text its writer made of the
  batch's tree, returns that tree. Every severity, line and time is well-formed: the
  numbers survive their decimal text.
\<close>

theorem decode_encode_batch:
  "read_json json (write_json json (log_tree batch)) = Some (log_tree batch) \<Longrightarrow>
   deserializeIntermediateLog json (serializeIntermediateLog json batch request) [] = batch"
  by (simp add: deserializeIntermediateLog_def serializeIntermediateLog_def children_log_tree
      comp_def log_line_of_log_item_tree)

theorem decode_encode_batch_witness:
  "deserializeIntermediateLog sample_json
      (serializeIntermediateLog sample_json [] [''status'' \<mapsto> ''true'']) [] = []
   \<and> deserializeIntermediateLog sample_json
      (serializeIntermediateLog sample_json [sample_line1] [''status'' \<mapsto> ''true'']) []
     = [sample_line1]
   \<and> deserializeIntermediateLog sample_json
      (serializeIntermediateLog sample_json [sample_line1, sample_line2]
        [''status'' \<mapsto> ''true'']) []
     = [sample_line1, sample_line2]"
proof -
  have r0: "read_json sample_json (write_json sample_json (log_tree [])) = Some (log_tree [])"
    by (simp add: sample_json_defs sample_tree_defs)
  have r1: "read_json sample_json (write_json sample_json (log_tree [sample_line1]))
      = Some (log_tree [sample_line1])"
    by (simp add: sample_json_defs sample_tree_defs)
  have r2: "read_json sample_json (write_json sample_json (log_tree [sample_line1, sample_line2]))
      = Some (log_tree [sample_line1, sample_line2])"
    by (simp add: sample_json_defs sample_tree_defs)
  show ?thesis
    using decode_encode_batch [OF r0] decode_encode_batch [OF r1] decode_encode_batch [OF r2]
    by blast
qed

text \<open>
  C7. Decoding a request without a \<^verbatim>\<open>log\<close> key adds no line to the log it was handed, and
  neither does decoding one whose \<^verbatim>\<open>log\<close> text the reader rejects: from the empty log the
  result is the empty batch, and the function returns in both cases. Text that parses
  gives one line per child of the tree; in a line, a field whose key the child lacks is
  \<open>O_INFO\<close> for the severity, \<^verbatim>\<open><unknown>\<close> for the file, 0 for the line, the empty
  string for the message and the calendar time, and 0 for the unix time.
\<close>

theorem decode_without_log:
  "(request ''log'' = None \<longrightarrow> deserializeIntermediateLog json request log = log)
   \<and> (request ''log'' = Some encoded \<and> read_json json encoded = None \<longrightarrow>
        deserializeIntermediateLog json request log = log)
   \<and> (request ''log'' = Some encoded \<and> read_json json encoded = Some tree \<longrightarrow>
        deserializeIntermediateLog json request log
          = log @ map (\<lambda>item. log_line_of (snd item)) (children tree))
   \<and> (get_child_optional ''s'' item = None \<longrightarrow> severity (log_line_of item) = O_INFO)
   \<and> (get_child_optional ''f'' item = None \<longrightarrow> filename (log_line_of item) = ''<unknown>'')
   \<and> (get_child_optional ''i'' item = None \<longrightarrow> line (log_line_of item) = 0)
   \<and> (get_child_optional ''m'' item = None \<longrightarrow> message (log_line_of item) = [])
   \<and> (get_child_optional ''c'' item = None \<longrightarrow> calendar_time (log_line_of item) = [])
   \<and> (get_child_optional ''u'' item = None \<longrightarrow> time (log_line_of item) = 0)"
  by (simp add: deserializeIntermediateLog_def log_line_of_def get_int_def get_string_def
      get_size_t_def)

theorem decode_without_log_witness:
  "deserializeIntermediateLog sample_json [''status'' \<mapsto> ''true''] [] = []
   \<and> deserializeIntermediateLog sample_json [''status'' \<mapsto> ''true'', ''log'' \<mapsto> ''{oops''] [] = []
   \<and> deserializeIntermediateLog sample_json [''log'' \<mapsto> ''{\"\":{\"m\":\"hello\"}}''] []
       = [\<lparr>severity = O_INFO, filename = ''<unknown>'', line = 0, message = ''hello'',
           calendar_time = [], time = 0\<rparr>]"
proof -
  have parsed: "read_json sample_json ''{\"\":{\"m\":\"hello\"}}''
      = Some (Node [] [([], Node [] [(''m'', Node ''hello'' [])])])"
    by (simp add: sample_json_defs)
  have unparsed: "read_json sample_json ''{oops'' = None"
    by (simp add: sample_json_defs)
  have missing: "get_child_optional k (Node [] [(''m'', Node ''hello'' [])]) = None"
    if "k \<noteq> ''m''" for k
    using that by (simp add: get_child_optional_def)
  have m: "message (log_line_of (Node [] [(''m'', Node ''hello'' [])])) = ''hello''"
    by (simp add: log_line_of_def get_string_def get_child_optional_def)
  show ?thesis
    using
      decode_without_log [where request = "[''status'' \<mapsto> ''true'']" and json = sample_json
        and log = "[]"]
      decode_without_log [where request = "[''status'' \<mapsto> ''true'', ''log'' \<mapsto> ''{oops'']"
        and json = sample_json and log = "[]" and encoded = "''{oops''"]
      decode_without_log [where request = "[''log'' \<mapsto> ''{\"\":{\"m\":\"hello\"}}'']"
        and json = sample_json and log = "[]" and encoded = "''{\"\":{\"m\":\"hello\"}}''"
        and tree = "Node [] [([], Node [] [(''m'', Node ''hello'' [])])]"
        and item = "Node [] [(''m'', Node ''hello'' [])]"]
      parsed unparsed m
    by (simp add: missing StatusLogLine.equality)
qed

subsection \<open>What the drains hand to the registry\<close>

lemma sender_requests:
  "map request_of (registry_calls (sender env w))
     = map request_of (registry_calls w)
       @ replicate (length (forwarding env (sink w))) (relayed_request env (logs (sink w)))"
  by (simp add: sender_registry_calls forwarding_def relayed_request_def enabledPlugins_def)

lemma sender_sinks: "sinks (sink (sender env w)) = sinks (sink w)"
  by (simp add: sender_def Let_def)

lemma forwarding_sinks:
  "sinks self' = sinks self \<Longrightarrow> forwarding env self' = forwarding env self"
  by (simp add: forwarding_def enabledPlugins_def)

lemma sender_carried:
  assumes "map request_of (registry_calls w)
      = concat (map (\<lambda>batch. replicate k (relayed_request env batch)) (drained w))"
    and "length (forwarding env (sink w)) = k"
  shows "map request_of (registry_calls (sender env w))
      = concat (map (\<lambda>batch. replicate k (relayed_request env batch)) (drained (sender env w)))
    \<and> length (forwarding env (sink (sender env w))) = k"
  using assms forwarding_sinks [OF sender_sinks, of env env w]
  by (simp add: sender_requests sender_drains)

lemma relay_carried:
  assumes "map request_of (registry_calls w)
      = concat (map (\<lambda>batch. replicate k (relayed_request env batch)) (drained w))"
    and "length (forwarding env (sink w)) = k"
  shows "map request_of (registry_calls (relayStatusLogs env a w))
      = concat (map (\<lambda>batch. replicate k (relayed_request env batch))
          (drained (relayStatusLogs env a w)))
    \<and> length (forwarding env (sink (relayStatusLogs env a w))) = k"
  using assms sender_carried [OF assms]
  by (simp add: relayStatusLogs_def forwarding_def enabledPlugins_def)

lemma step_carried:
  assumes "keeps_plugins e"
    and "map request_of (registry_calls w)
      = concat (map (\<lambda>batch. replicate k (relayed_request env batch)) (drained w))"
    and "length (forwarding env (sink w)) = k"
  shows "map request_of (registry_calls (step env w e))
      = concat (map (\<lambda>batch. replicate k (relayed_request env batch)) (drained (step env w e)))
    \<and> length (forwarding env (sink (step env w e))) = k"
proof (cases e)
  case (Send r)
  have "map request_of (registry_calls (append_log r w))
      = concat (map (\<lambda>batch. replicate k (relayed_request env batch)) (drained (append_log r w)))"
    "length (forwarding env (sink (append_log r w))) = k"
    using assms by (simp_all add: append_log_def forwarding_def enabledPlugins_def)
  then show ?thesis
    using Send relay_carried [of "append_log r w" k env "FLAGS_logger_status_sync env"]
    by (simp add: send_def Let_def)
next
  case (Relay a)
  then show ?thesis using relay_carried [OF assms(2,3)] by simp
next
  case (Run t)
  have "map request_of (registry_calls (w\<lparr>detached := remove1 t (detached w)\<rparr>))
      = concat (map (\<lambda>batch. replicate k (relayed_request env batch))
          (drained (w\<lparr>detached := remove1 t (detached w)\<rparr>)))"
    "length (forwarding env (sink (w\<lparr>detached := remove1 t (detached w)\<rparr>))) = k"
    using assms by simp_all
  then show ?thesis
    using Run assms sender_carried [of "w\<lparr>detached := remove1 t (detached w)\<rparr>" k env]
    by simp
next
  case (Append r)
  then show ?thesis
    using assms by (simp add: append_log_def forwarding_def enabledPlugins_def)
next
  case Sender
  then show ?thesis using sender_carried [OF assms(2,3)] by simp
next
  case WaitSent
  then show ?thesis
    using assms
    by (simp add: WaitTillSent_def Let_def forwarding_def enabledPlugins_def
        split: prod.splits option.splits if_splits)
next
  case (Lifecycle c)
  then show ?thesis
    using assms
    by (cases c)
      (simp_all add: setUp_def enable_def disable_def Let_def forwarding_def enabledPlugins_def)
next
  case (AddPlugin n)
  then show ?thesis using assms by simp
next
  case ResetPlugins
  then show ?thesis using assms by simp
next
  case (SetPrimary n)
  then show ?thesis
    using assms by (simp add: setPrimary_def forwarding_def enabledPlugins_def)
qed

lemma run_carried:
  assumes "list_all keeps_plugins evs"
    and "map request_of (registry_calls w)
      = concat (map (\<lambda>batch. replicate k (relayed_request env batch)) (drained w))"
    and "length (forwarding env (sink w)) = k"
  shows "map request_of (registry_calls (run env w evs))
      = concat (map (\<lambda>batch. replicate k (relayed_request env batch)) (drained (run env w evs)))"
  using assms
proof (induction evs arbitrary: w)
  case Nil
  then show ?case by (simp add: run_def)
next
  case (Cons e evs)
  have "keeps_plugins e" "list_all keeps_plugins evs"
    using Cons.prems(1) by simp_all
  then show ?case
    using Cons.IH [of "step env w e"] step_carried [of e w k env] Cons.prems(2,3)
    by (simp add: run_def)
qed

lemma decode_relayed_request:
  "read_json (boost_json env) (butlast (write_json (boost_json env) (log_tree batch)))
     = Some (log_tree batch) \<Longrightarrow>
   deserializeIntermediateLog (boost_json env) (relayed_request env batch) [] = batch"
  by (simp add: deserializeIntermediateLog_def relayed_request_def children_log_tree comp_def
      log_line_of_log_item_tree)

lemma delivered_lines_requests:
  "delivered_lines env calls
     = concat (map (\<lambda>request. deserializeIntermediateLog (boost_json env) request [])
         (map request_of calls))"
  by (simp add: delivered_lines_def comp_def)

lemma mset_concat_replicate: "mset (concat (replicate k xs)) = repeat_mset k (mset xs)"
  by (induction k) simp_all

lemma mset_decoded_batches:
  "\<forall>batch \<in> set batches.
      read_json (boost_json env) (butlast (write_json (boost_json env) (log_tree batch)))
        = Some (log_tree batch) \<Longrightarrow>
   mset (concat (map (\<lambda>request. deserializeIntermediateLog (boost_json env) request [])
      (concat (map (\<lambda>batch. replicate k (relayed_request env batch)) batches))))
     = repeat_mset k (mset (concat batches))"
proof (induction batches)
  case Nil
  then show ?case by simp
next
  case (Cons b batches)
  have "concat (map (\<lambda>request. deserializeIntermediateLog (boost_json env) request [])
      (replicate k (relayed_request env b))) = concat (replicate k b)"
    using Cons.prems by (simp add: decode_relayed_request map_replicate)
  then show ?case
    using Cons by (simp add: mset_concat_replicate)
qed

lemma run_delivered:
  assumes "list_all keeps_plugins evs"
    and "\<forall>batch \<in> set (drained (run env (w\<lparr>registry_calls := [], drained := []\<rparr>) evs)).
      read_json (boost_json env) (butlast (write_json (boost_json env) (log_tree batch)))
        = Some (log_tree batch)"
  shows "mset (delivered_lines env
        (registry_calls (run env (w\<lparr>registry_calls := [], drained := []\<rparr>) evs)))
      = repeat_mset (length (forwarding env (sink w)))
          (mset (concat (drained (run env (w\<lparr>registry_calls := [], drained := []\<rparr>) evs))))"
proof -
  have "map request_of (registry_calls (run env (w\<lparr>registry_calls := [], drained := []\<rparr>) evs))
      = concat (map (\<lambda>batch. replicate (length (forwarding env (sink w)))
                        (relayed_request env batch))
          (drained (run env (w\<lparr>registry_calls := [], drained := []\<rparr>) evs)))"
    using assms(1)
      run_carried [of evs "w\<lparr>registry_calls := [], drained := []\<rparr>"
        "length (forwarding env (sink w))" env]
    by simp
  then show ?thesis
    using mset_decoded_batches [OF assms(2)] by (simp add: delivered_lines_requests)
qed

text \<open>
  C1, with delivery as the registry calls made. Whatever the events and their order, the batches the senders took, one
  after the other, followed by what is still in the buffer, are exactly the lines
  appended, in the order they were appended: each line is in one batch or still
  buffered, none twice and none lost, and so the multisets agree. A sender takes the
  whole buffer as its batch, leaves the buffer empty, and makes one registry call for
  each name of the active logger setting that is among the enabled plugins, each with
  the request that holds the encoded batch; so it makes none when no active name is
  enabled. A relay with logging not disabled and a non-empty buffer runs the sender at
  once when \<open>async\<close> is set and otherwise detaches a thread, whose run is the sender; a
  send appends its line and relays when the sink is enabled outside the daemon. While
  the enabled plugins stay as they are, the requests of all registry calls are those of
  the batches taken, in order, each as often as there are such names; and where Boost's
  reader returns the tree of each such text, the lines the calls carry are, as a
  multiset, the lines of the batches, each that many times.
\<close>

theorem drained_batches_carried:
  "concat (drained (run env w evs)) @ logs (sink (run env w evs))
     = concat (drained w) @ logs (sink w) @ appended evs
   \<and> concat (drained (run env world0 evs)) @ logs (sink (run env world0 evs)) = appended evs
   \<and> mset (concat (drained (run env world0 evs))) + mset (logs (sink (run env world0 evs)))
       = mset (appended evs)
   \<and> logs (sink (sender env w)) = []
   \<and> drained (sender env w) = drained w @ [logs (sink w)]
   \<and> map request_of (registry_calls (sender env w))
       = map request_of (registry_calls w)
         @ replicate (length (forwarding env (sink w))) (relayed_request env (logs (sink w)))
   \<and> (\<not> FLAGS_disable_logging env \<and> logs (sink w) \<noteq> [] \<longrightarrow>
        relayStatusLogs env True w = sender env w
        \<and> relayStatusLogs env False w
            = w\<lparr>detached := detached w @ [started w], started := Suc (started w),
                sink := (sink w)\<lparr>senders := senders (sink w) @ [Task (started w)]\<rparr>\<rparr>)
   \<and> (t \<in> set (detached w) \<longrightarrow>
        step env w (Run t) = sender env (w\<lparr>detached := remove1 t (detached w)\<rparr>))
   \<and> (enabled (sink w) \<and> \<not> kToolType_is_DAEMON env \<longrightarrow>
        send env log_item w
          = relayStatusLogs env (FLAGS_logger_status_sync env) (append_log log_item w))
   \<and> (\<not> (enabled (sink w) \<and> \<not> kToolType_is_DAEMON env) \<longrightarrow>
        send env log_item w = append_log log_item w)
   \<and> (list_all keeps_plugins evs \<longrightarrow>
        map request_of (registry_calls (run env (w\<lparr>registry_calls := [], drained := []\<rparr>) evs))
          = concat (map (\<lambda>batch. replicate (length (forwarding env (sink w)))
                            (relayed_request env batch))
              (drained (run env (w\<lparr>registry_calls := [], drained := []\<rparr>) evs))))
   \<and> (list_all keeps_plugins evs
        \<and> (\<forall>batch \<in> set (drained (run env (w\<lparr>registry_calls := [], drained := []\<rparr>) evs)).
              read_json (boost_json env)
                (butlast (write_json (boost_json env) (log_tree batch)))
              = Some (log_tree batch)) \<longrightarrow>
        mset (delivered_lines env
            (registry_calls (run env (w\<lparr>registry_calls := [], drained := []\<rparr>) evs)))
          = repeat_mset (length (forwarding env (sink w)))
              (mset (concat
                (drained (run env (w\<lparr>registry_calls := [], drained := []\<rparr>) evs)))))"
proof -
  have seq: "concat (drained (run env world0 evs)) @ logs (sink (run env world0 evs))
      = appended evs"
    using run_keeps [of env world0 evs] by (simp add: world0_def instance0_def)
  have "mset (concat (drained (run env world0 evs)) @ logs (sink (run env world0 evs)))
      = mset (appended evs)"
    using seq by simp
  then have ms: "mset (concat (drained (run env world0 evs)))
      + mset (logs (sink (run env world0 evs))) = mset (appended evs)"
    by simp
  have relay: "relayStatusLogs env True w = sender env w
      \<and> relayStatusLogs env False w
          = w\<lparr>detached := detached w @ [started w], started := Suc (started w),
              sink := (sink w)\<lparr>senders := senders (sink w) @ [Task (started w)]\<rparr>\<rparr>"
    if "\<not> FLAGS_disable_logging env \<and> logs (sink w) \<noteq> []"
    using that by (simp add: relayStatusLogs_def)
  have thread: "step env w (Run t) = sender env (w\<lparr>detached := remove1 t (detached w)\<rparr>)"
    if "t \<in> set (detached w)"
    using that by simp
  have send1: "send env log_item w
      = relayStatusLogs env (FLAGS_logger_status_sync env) (append_log log_item w)"
    if "enabled (sink w) \<and> \<not> kToolType_is_DAEMON env"
    using that by (simp add: send_def Let_def append_log_def)
  have send2: "send env log_item w = append_log log_item w"
    if "\<not> (enabled (sink w) \<and> \<not> kToolType_is_DAEMON env)"
    using that by (auto simp: send_def Let_def append_log_def)
  have carried: "map request_of (registry_calls (run env (w\<lparr>registry_calls := [], drained := []\<rparr>) evs))
      = concat (map (\<lambda>batch. replicate (length (forwarding env (sink w)))
                        (relayed_request env batch))
          (drained (run env (w\<lparr>registry_calls := [], drained := []\<rparr>) evs)))"
    if "list_all keeps_plugins evs"
    using that
      run_carried [of evs "w\<lparr>registry_calls := [], drained := []\<rparr>"
        "length (forwarding env (sink w))" env]
    by simp
  have delivered: "mset (delivered_lines env
        (registry_calls (run env (w\<lparr>registry_calls := [], drained := []\<rparr>) evs)))
      = repeat_mset (length (forwarding env (sink w)))
          (mset (concat (drained (run env (w\<lparr>registry_calls := [], drained := []\<rparr>) evs))))"
    if "list_all keeps_plugins evs
        \<and> (\<forall>batch \<in> set (drained (run env (w\<lparr>registry_calls := [], drained := []\<rparr>) evs)).
              read_json (boost_json env)
                (butlast (write_json (boost_json env) (log_tree batch)))
              = Some (log_tree batch))"
    using that run_delivered [of evs env w] by blast
  show ?thesis
    using run_keeps [of env w evs] seq ms sender_drains [of env w] sender_requests [of env w]
      relay thread send1 send2 carried delivered
    by blast
qed

theorem drained_batches_carried_witness:
  "map request_of (registry_calls (run (sample_env\<lparr>getActive_logger := ''A,B''\<rparr>)
      (world0\<lparr>sink := instance0\<lparr>sinks := [''A''], enabled := True, active := True\<rparr>\<rparr>)
      [Append sample_line1, Relay True, Send sample_line2, Run 0]))
     = [relayed_request (sample_env\<lparr>getActive_logger := ''A,B''\<rparr>) [sample_line1],
        relayed_request (sample_env\<lparr>getActive_logger := ''A,B''\<rparr>) [sample_line2]]
   \<and> drained (run (sample_env\<lparr>getActive_logger := ''A,B''\<rparr>)
      (world0\<lparr>sink := instance0\<lparr>sinks := [''A''], enabled := True, active := True\<rparr>\<rparr>)
      [Append sample_line1, Relay True, Send sample_line2, Run 0])
     = [[sample_line1], [sample_line2]]
   \<and> mset (delivered_lines (sample_env\<lparr>getActive_logger := ''A,B''\<rparr>)
        (registry_calls (run (sample_env\<lparr>getActive_logger := ''A,B''\<rparr>)
          (world0\<lparr>sink := instance0\<lparr>sinks := [''A''], enabled := True, active := True\<rparr>\<rparr>)
          [Append sample_line1, Relay True, Send sample_line2, Run 0])))
     = {#sample_line1, sample_line2#}
   \<and> relayStatusLogs sample_env True (append_log sample_line1 world0)
     = sender sample_env (append_log sample_line1 world0)
   \<and> detached (relayStatusLogs sample_env False (append_log sample_line1 world0)) = [0]
   \<and> step sample_env (relayStatusLogs sample_env False (append_log sample_line1 world0)) (Run 0)
     = sender sample_env ((relayStatusLogs sample_env False (append_log sample_line1 world0))
         \<lparr>detached := []\<rparr>)
   \<and> send sample_env sample_line1 (world0\<lparr>sink := enable instance0\<rparr>)
     = relayStatusLogs sample_env False (append_log sample_line1 (world0\<lparr>sink := enable instance0\<rparr>))
   \<and> send sample_env sample_line1 world0 = append_log sample_line1 world0"
proof -
  let ?env = "sample_env\<lparr>getActive_logger := ''A,B''\<rparr>"
  let ?w = "world0\<lparr>sink := instance0\<lparr>sinks := [''A''], enabled := True, active := True\<rparr>\<rparr>"
  let ?evs = "[Append sample_line1, Relay True, Send sample_line2, Run 0]"
  have flags: "\<not> FLAGS_disable_logging ?env" "\<not> kToolType_is_DAEMON ?env"
    "\<not> FLAGS_logger_status_sync ?env" "\<not> FLAGS_disable_logging sample_env"
    "\<not> kToolType_is_DAEMON sample_env" "\<not> FLAGS_logger_status_sync sample_env"
    by (simp_all add: sample_env_def)
  have k: "length (forwarding ?env
      (instance0\<lparr>sinks := [''A''], enabled := True, active := True\<rparr>)) = 1"
    by (simp add: forwarding_def enabledPlugins_def split_def)
  have d: "drained (run ?env ?w ?evs) = [[sample_line1], [sample_line2]]"
    using flags
    by (simp add: run_def append_log_def relayStatusLogs_def send_def sender_def
        world0_def instance0_def Let_def)
  have w: "?w\<lparr>registry_calls := [], drained := []\<rparr> = ?w"
    by (simp add: world0_def)
  have c: "map request_of (registry_calls (run ?env ?w ?evs))
      = [relayed_request ?env [sample_line1], relayed_request ?env [sample_line2]]"
    using drained_batches_carried [where env = ?env and w = ?w and evs = ?evs,
        THEN conjunct2, THEN conjunct2, THEN conjunct2, THEN conjunct2, THEN conjunct2,
        THEN conjunct2, THEN conjunct2, THEN conjunct2, THEN conjunct2, THEN conjunct2,
        THEN conjunct1]
    by (simp add: w k d)
  have parses: "\<forall>batch \<in> set [[sample_line1], [sample_line2]].
      read_json (boost_json ?env) (butlast (write_json (boost_json ?env) (log_tree batch)))
        = Some (log_tree batch)"
    by (simp add: sample_env_def sample_json_defs sample_tree_defs)
  have m: "mset (delivered_lines ?env (registry_calls (run ?env ?w ?evs)))
      = {#sample_line1, sample_line2#}"
    using parses drained_batches_carried [where env = ?env and w = ?w and evs = ?evs,
        THEN conjunct2, THEN conjunct2, THEN conjunct2, THEN conjunct2, THEN conjunct2,
        THEN conjunct2, THEN conjunct2, THEN conjunct2, THEN conjunct2, THEN conjunct2,
        THEN conjunct2]
    by (simp add: w k d)
  have nonempty: "\<not> FLAGS_disable_logging sample_env
      \<and> logs (sink (append_log sample_line1 world0)) \<noteq> []"
    using flags by (simp add: append_log_def)
  note r = drained_batches_carried [where env = sample_env
      and w = "append_log sample_line1 world0", THEN conjunct2, THEN conjunct2, THEN conjunct2,
      THEN conjunct2, THEN conjunct2, THEN conjunct2, THEN conjunct1, THEN mp, OF nonempty]
  have det: "detached (relayStatusLogs sample_env False (append_log sample_line1 world0)) = [0]"
    using r by (simp add: append_log_def world0_def)
  have run0: "step sample_env (relayStatusLogs sample_env False (append_log sample_line1 world0))
        (Run 0)
      = sender sample_env ((relayStatusLogs sample_env False (append_log sample_line1 world0))
          \<lparr>detached := []\<rparr>)"
    using det drained_batches_carried [where env = sample_env and t = 0
        and w = "relayStatusLogs sample_env False (append_log sample_line1 world0)",
        THEN conjunct2, THEN conjunct2, THEN conjunct2, THEN conjunct2, THEN conjunct2,
        THEN conjunct2, THEN conjunct2, THEN conjunct1]
    by simp
  have s1: "send sample_env sample_line1 (world0\<lparr>sink := enable instance0\<rparr>)
      = relayStatusLogs sample_env False
          (append_log sample_line1 (world0\<lparr>sink := enable instance0\<rparr>))"
    using flags drained_batches_carried [where env = sample_env
        and w = "world0\<lparr>sink := enable instance0\<rparr>" and log_item = sample_line1,
        THEN conjunct2, THEN conjunct2, THEN conjunct2, THEN conjunct2, THEN conjunct2,
        THEN conjunct2, THEN conjunct2, THEN conjunct2, THEN conjunct1]
    by (simp add: enable_def instance0_def Let_def)
  have s2: "send sample_env sample_line1 world0 = append_log sample_line1 world0"
    using drained_batches_carried [where env = sample_env and w = world0
        and log_item = sample_line1,
        THEN conjunct2, THEN conjunct2, THEN conjunct2, THEN conjunct2, THEN conjunct2,
        THEN conjunct2, THEN conjunct2, THEN conjunct2, THEN conjunct2, THEN conjunct1]
    by (simp add: world0_def instance0_def)
  show ?thesis
    using c d m r det run0 s1 s2 by blast
qed

text \<open>
  C1, as stated, fails where no name of the active logger setting is among the enabled
  plugins: a line is appended and relayed, the buffer is empty afterwards and the line is
  in the batch taken, but no registry call was made, so the lines delivered are not the
  lines appended.
\<close>

theorem drained_batch_not_delivered:
  "logs (sink (run sample_env world0 [Append sample_line1, Relay True])) = []
   \<and> drained (run sample_env world0 [Append sample_line1, Relay True]) = [[sample_line1]]
   \<and> registry_calls (run sample_env world0 [Append sample_line1, Relay True]) = []
   \<and> mset (delivered_lines sample_env
        (registry_calls (run sample_env world0 [Append sample_line1, Relay True])))
      \<noteq> mset (appended [Append sample_line1, Relay True])"
proof -
  have f: "\<not> FLAGS_disable_logging sample_env" "getActive_logger sample_env = ''filesystem''"
    by (simp_all add: sample_env_def)
  have w: "run sample_env world0 [Append sample_line1, Relay True]
      = sender sample_env (append_log sample_line1 world0)"
    using f by (simp add: run_def relayStatusLogs_def append_log_def)
  have calls: "registry_calls (sender sample_env (append_log sample_line1 world0)) = []"
    using f by (simp add: sender_registry_calls append_log_def world0_def instance0_def split_def)
  show ?thesis
    using calls
    by (simp add: w sender_drains delivered_lines_def) (simp add: append_log_def world0_def instance0_def)
qed

subsection \<open>The call of a logger plugin\<close>

text \<open>
  C5. For a request the check for secondary plugins does not suppress, \<open>call\<close> goes by
  the first key present in the order \<^verbatim>\<open>string\<close>, \<^verbatim>\<open>snapshot\<close>, \<^verbatim>\<open>init\<close>, \<^verbatim>\<open>status\<close>,
  \<^verbatim>\<open>event\<close>, whatever later keys are there too, and invokes that member only; with none
  of them and \<^verbatim>\<open>action\<close> equal to \<^verbatim>\<open>features\<close> it returns as code the feature bits of
  the members \<open>usesLogStatus\<close> and \<open>usesLogEvent\<close> answer true for, so that, the two
  feature bits being non-zero and disjoint, each is set exactly when its member says so;
  any other request returns the status 1, "Unsupported call to logger plugin", and
  invokes nothing.
\<close>

theorem call_key_precedence:
  assumes "\<not> (FLAGS_logger_secondary_status_only env
            \<and> \<not> isPrimaryLogger (getName this) self
            \<and> (request ''string'' \<noteq> None \<or> request ''snapshot'' \<noteq> None))"
  shows
  "(request ''string'' = Some m \<longrightarrow>
      call env self this request = (plugin_logString this m, this, [LogString m]))
   \<and> (request ''string'' = None \<and> request ''snapshot'' = Some j \<longrightarrow>
      call env self this request = (plugin_logSnapshot this j, this, [LogSnapshot j]))
   \<and> (request ''string'' = None \<and> request ''snapshot'' = None \<and> request ''init'' = Some n \<longrightarrow>
      call env self this request =
        (Status1 0, setProcessName n this,
         [Init n (deserializeIntermediateLog (boost_json env) request [])]))
   \<and> (request ''string'' = None \<and> request ''snapshot'' = None \<and> request ''init'' = None
        \<and> request ''status'' = Some v \<longrightarrow>
      call env self this request =
        (plugin_logStatus this (deserializeIntermediateLog (boost_json env) request []), this,
         [LogStatus (deserializeIntermediateLog (boost_json env) request [])]))
   \<and> (request ''string'' = None \<and> request ''snapshot'' = None \<and> request ''init'' = None
        \<and> request ''status'' = None \<and> request ''event'' = Some e \<longrightarrow>
      call env self this request = (plugin_logEvent this e, this, [LogEvent e]))
   \<and> (request ''string'' = None \<and> request ''snapshot'' = None \<and> request ''init'' = None
        \<and> request ''status'' = None \<and> request ''event'' = None
        \<and> request ''action'' = Some ''features'' \<longrightarrow>
      call env self this request =
        (Status1 (sint ((if usesLogStatus this then LOGGER_FEATURE_LOGSTATUS env else 0)
                    OR (if usesLogEvent this then LOGGER_FEATURE_LOGEVENT env else 0))),
         this, [])
      \<and> (LOGGER_FEATURE_LOGSTATUS env \<noteq> 0 \<and> LOGGER_FEATURE_LOGEVENT env \<noteq> 0
           \<and> LOGGER_FEATURE_LOGSTATUS env AND LOGGER_FEATURE_LOGEVENT env = 0 \<longrightarrow>
          ((word_of_int (getCode (fst (call env self this request)))
              AND LOGGER_FEATURE_LOGSTATUS env \<noteq> 0) = usesLogStatus this)
          \<and> ((word_of_int (getCode (fst (call env self this request)))
              AND LOGGER_FEATURE_LOGEVENT env \<noteq> 0) = usesLogEvent this)))
   \<and> (request ''string'' = None \<and> request ''snapshot'' = None \<and> request ''init'' = None
        \<and> request ''status'' = None \<and> request ''event'' = None
        \<and> request ''action'' \<noteq> Some ''features'' \<longrightarrow>
      call env self this request = (Status2 1 ''Unsupported call to logger plugin'', this, [])
      \<and> \<not> ok (fst (call env self this request)))"
proof -
  have cast: "(ucast (scast (x :: 32 word) :: 64 word) :: 32 word) = x" for x
    by (rule bit_word_eqI) (auto simp: bit_simps)
  have cast2: "(ucast ((scast x :: 64 word) OR scast y) :: 32 word) = x OR y"
    for x y :: "32 word"
    by (rule bit_word_eqI) (auto simp: bit_simps)
  have bits: "(((if a then x else 0) OR (if b then y else 0)) AND x \<noteq> 0) = a"
    "(((if a then x else 0) OR (if b then y else 0)) AND y \<noteq> 0) = b"
    if "x \<noteq> 0" "y \<noteq> 0" "x AND y = 0" for a b and x y :: "32 word"
    using that by (auto simp: word_bw_comms word_ao_dist)
  have b1: "call env self this request = (plugin_logString this m, this, [LogString m])"
    if "request ''string'' = Some m"
    using assms that by (simp add: call_def)
  have b2: "call env self this request = (plugin_logSnapshot this j, this, [LogSnapshot j])"
    if "request ''string'' = None" "request ''snapshot'' = Some j"
    using assms that by (simp add: call_def)
  have b3: "call env self this request =
        (Status1 0, setProcessName n this,
         [Init n (deserializeIntermediateLog (boost_json env) request [])])"
    if "request ''string'' = None" "request ''snapshot'' = None" "request ''init'' = Some n"
    using that by (simp add: call_def Let_def setProcessName_def)
  have b4: "call env self this request =
        (plugin_logStatus this (deserializeIntermediateLog (boost_json env) request []), this,
         [LogStatus (deserializeIntermediateLog (boost_json env) request [])])"
    if "request ''string'' = None" "request ''snapshot'' = None" "request ''init'' = None"
       "request ''status'' = Some v"
    using that by (simp add: call_def Let_def)
  have b5: "call env self this request = (plugin_logEvent this e, this, [LogEvent e])"
    if "request ''string'' = None" "request ''snapshot'' = None" "request ''init'' = None"
       "request ''status'' = None" "request ''event'' = Some e"
    using that by (simp add: call_def)
  have b6: "call env self this request =
        (Status1 (sint ((if usesLogStatus this then LOGGER_FEATURE_LOGSTATUS env else 0)
                    OR (if usesLogEvent this then LOGGER_FEATURE_LOGEVENT env else 0))),
         this, [])"
    if "request ''string'' = None" "request ''snapshot'' = None" "request ''init'' = None"
       "request ''status'' = None" "request ''event'' = None"
       "request ''action'' = Some ''features''"
    using that by (simp add: call_def Let_def cast cast2)
  have b6': "((word_of_int (getCode (fst (call env self this request)))
              AND LOGGER_FEATURE_LOGSTATUS env \<noteq> 0) = usesLogStatus this)
          \<and> ((word_of_int (getCode (fst (call env self this request)))
              AND LOGGER_FEATURE_LOGEVENT env \<noteq> 0) = usesLogEvent this)"
    if "request ''string'' = None" "request ''snapshot'' = None" "request ''init'' = None"
       "request ''status'' = None" "request ''event'' = None"
       "request ''action'' = Some ''features''"
       "LOGGER_FEATURE_LOGSTATUS env \<noteq> 0" "LOGGER_FEATURE_LOGEVENT env \<noteq> 0"
       "LOGGER_FEATURE_LOGSTATUS env AND LOGGER_FEATURE_LOGEVENT env = 0"
    using bits [OF that(7) that(8) that(9), of "usesLogStatus this" "usesLogEvent this"]
    by (simp add: b6 [OF that(1-6)] Status1_def)
  have b7: "call env self this request = (Status2 1 ''Unsupported call to logger plugin'', this, [])
      \<and> \<not> ok (fst (call env self this request))"
    if "request ''string'' = None" "request ''snapshot'' = None" "request ''init'' = None"
       "request ''status'' = None" "request ''event'' = None"
       "request ''action'' \<noteq> Some ''features''"
    using that by (simp add: call_def Let_def ok_def Status2_def)
  show ?thesis
    using b1 b2 b3 b4 b5 b6 b6' b7 by blast
qed

theorem call_key_precedence_witness:
  "call sample_env instance0 sample_plugin
      [''string'' \<mapsto> ''m'', ''snapshot'' \<mapsto> ''j'', ''status'' \<mapsto> ''true'']
     = (Status2 0 ''string'', sample_plugin, [LogString ''m''])
   \<and> call sample_env instance0 sample_plugin [''snapshot'' \<mapsto> ''j'', ''event'' \<mapsto> ''e'']
     = (Status2 0 ''snapshot'', sample_plugin, [LogSnapshot ''j''])
   \<and> call sample_env instance0 sample_plugin [''init'' \<mapsto> ''osqueryd'', ''status'' \<mapsto> ''true'']
     = (Status1 0, setProcessName ''osqueryd'' sample_plugin, [Init ''osqueryd'' []])
   \<and> call sample_env instance0 sample_plugin [''status'' \<mapsto> ''true'', ''event'' \<mapsto> ''e'']
     = (Status2 0 ''status'', sample_plugin, [LogStatus []])
   \<and> call sample_env instance0 sample_plugin [''event'' \<mapsto> ''e'', ''action'' \<mapsto> ''features'']
     = (Status2 0 ''event'', sample_plugin, [LogEvent ''e''])
   \<and> call sample_env instance0 sample_plugin [''action'' \<mapsto> ''features'']
     = (Status1 1, sample_plugin, [])
   \<and> call sample_env instance0 sample_plugin [''action'' \<mapsto> ''reset'']
     = (Status2 1 ''Unsupported call to logger plugin'', sample_plugin, [])"
  using
    call_key_precedence [where env = sample_env and self = instance0 and this = sample_plugin
      and request = "[''string'' \<mapsto> ''m'', ''snapshot'' \<mapsto> ''j'', ''status'' \<mapsto> ''true'']"
      and m = "''m''"]
    call_key_precedence [where env = sample_env and self = instance0 and this = sample_plugin
      and request = "[''snapshot'' \<mapsto> ''j'', ''event'' \<mapsto> ''e'']" and j = "''j''"]
    call_key_precedence [where env = sample_env and self = instance0 and this = sample_plugin
      and request = "[''init'' \<mapsto> ''osqueryd'', ''status'' \<mapsto> ''true'']" and n = "''osqueryd''"]
    call_key_precedence [where env = sample_env and self = instance0 and this = sample_plugin
      and request = "[''status'' \<mapsto> ''true'', ''event'' \<mapsto> ''e'']" and v = "''true''"]
    call_key_precedence [where env = sample_env and self = instance0 and this = sample_plugin
      and request = "[''event'' \<mapsto> ''e'', ''action'' \<mapsto> ''features'']" and e = "''e''"]
    call_key_precedence [where env = sample_env and self = instance0 and this = sample_plugin
      and request = "[''action'' \<mapsto> ''features'']"]
    call_key_precedence [where env = sample_env and self = instance0 and this = sample_plugin
      and request = "[''action'' \<mapsto> ''reset'']"]
  by (simp add: sample_env_def sample_plugin_def deserializeIntermediateLog_def)

text \<open>
  C6. With the flag for secondary plugins set and a plugin that is not the primary one,
  a request with a \<^verbatim>\<open>string\<close> or a \<^verbatim>\<open>snapshot\<close> key returns the status 0 with the
  message "Logging disabled to secondary plugins" and invokes no member. A request with
  neither of the two keys is handled as if the flag were off: an \<^verbatim>\<open>init\<close>, \<^verbatim>\<open>status\<close>
  or \<^verbatim>\<open>event\<close> request (the first of these keys present) invokes \<open>init\<close>, \<open>logStatus\<close>
  or \<open>logEvent\<close>, on the primary plugin or not.
\<close>

theorem secondary_plugins_get_status_only:
  "(FLAGS_logger_secondary_status_only env \<and> \<not> isPrimaryLogger (getName this) self
      \<and> (request ''string'' \<noteq> None \<or> request ''snapshot'' \<noteq> None) \<longrightarrow>
      call env self this request = (Status2 0 ''Logging disabled to secondary plugins'', this, [])
      \<and> ok (fst (call env self this request)))
   \<and> (request ''string'' = None \<and> request ''snapshot'' = None \<longrightarrow>
      call (env\<lparr>FLAGS_logger_secondary_status_only := False\<rparr>) self this request
        = call env self this request)
   \<and> (request ''string'' = None \<and> request ''snapshot'' = None \<and> request ''init'' = Some n \<longrightarrow>
      call env self this request =
        (Status1 0, setProcessName n this,
         [Init n (deserializeIntermediateLog (boost_json env) request [])]))
   \<and> (request ''string'' = None \<and> request ''snapshot'' = None \<and> request ''init'' = None
        \<and> request ''status'' = Some v \<longrightarrow>
      call env self this request =
        (plugin_logStatus this (deserializeIntermediateLog (boost_json env) request []), this,
         [LogStatus (deserializeIntermediateLog (boost_json env) request [])]))
   \<and> (request ''string'' = None \<and> request ''snapshot'' = None \<and> request ''init'' = None
        \<and> request ''status'' = None \<and> request ''event'' = Some e \<longrightarrow>
      call env self this request = (plugin_logEvent this e, this, [LogEvent e]))"
proof -
  have s: "call env self this request
        = (Status2 0 ''Logging disabled to secondary plugins'', this, [])
      \<and> ok (fst (call env self this request))"
    if "FLAGS_logger_secondary_status_only env" "\<not> isPrimaryLogger (getName this) self"
       "request ''string'' \<noteq> None \<or> request ''snapshot'' \<noteq> None"
    using that by (simp add: call_def ok_def Status2_def)
  have d: "call (env\<lparr>FLAGS_logger_secondary_status_only := False\<rparr>) self this request
        = call env self this request"
    if "request ''string'' = None" "request ''snapshot'' = None"
    using that by (simp add: call_def Let_def split: option.splits)
  have b3: "call env self this request =
        (Status1 0, setProcessName n this,
         [Init n (deserializeIntermediateLog (boost_json env) request [])])"
    if "request ''string'' = None" "request ''snapshot'' = None" "request ''init'' = Some n"
    using that by (simp add: call_def Let_def setProcessName_def)
  have b4: "call env self this request =
        (plugin_logStatus this (deserializeIntermediateLog (boost_json env) request []), this,
         [LogStatus (deserializeIntermediateLog (boost_json env) request [])])"
    if "request ''string'' = None" "request ''snapshot'' = None" "request ''init'' = None"
       "request ''status'' = Some v"
    using that by (simp add: call_def Let_def)
  have b5: "call env self this request = (plugin_logEvent this e, this, [LogEvent e])"
    if "request ''string'' = None" "request ''snapshot'' = None" "request ''init'' = None"
       "request ''status'' = None" "request ''event'' = Some e"
    using that by (simp add: call_def)
  show ?thesis
    using s d b3 b4 b5 by blast
qed

theorem secondary_plugins_get_status_only_witness:
  "call (sample_env\<lparr>FLAGS_logger_secondary_status_only := True\<rparr>)
      (setPrimary ''filesystem'' instance0) sample_plugin
      [''string'' \<mapsto> ''m'', ''category'' \<mapsto> ''event'']
     = (Status2 0 ''Logging disabled to secondary plugins'', sample_plugin, [])
   \<and> call (sample_env\<lparr>FLAGS_logger_secondary_status_only := True\<rparr>)
      (setPrimary ''filesystem'' instance0) sample_plugin [''snapshot'' \<mapsto> ''j'']
     = (Status2 0 ''Logging disabled to secondary plugins'', sample_plugin, [])
   \<and> call (sample_env\<lparr>FLAGS_logger_secondary_status_only := True\<rparr>)
      (setPrimary ''filesystem'' instance0) sample_plugin [''init'' \<mapsto> ''osqueryd'']
     = (Status1 0, setProcessName ''osqueryd'' sample_plugin, [Init ''osqueryd'' []])
   \<and> call (sample_env\<lparr>FLAGS_logger_secondary_status_only := True\<rparr>)
      (setPrimary ''filesystem'' instance0) sample_plugin [''status'' \<mapsto> ''true'']
     = (Status2 0 ''status'', sample_plugin, [LogStatus []])
   \<and> call (sample_env\<lparr>FLAGS_logger_secondary_status_only := True\<rparr>)
      (setPrimary ''filesystem'' instance0) sample_plugin [''event'' \<mapsto> ''e'']
     = (Status2 0 ''event'', sample_plugin, [LogEvent ''e''])"
proof -
  let ?env = "sample_env\<lparr>FLAGS_logger_secondary_status_only := True\<rparr>"
  let ?self = "setPrimary ''filesystem'' instance0"
  have secondary: "FLAGS_logger_secondary_status_only ?env"
    "\<not> isPrimaryLogger (getName sample_plugin) ?self"
    by (simp_all add: sample_plugin_def setPrimary_def instance0_def isPrimaryLogger_def)
  have no_log: "deserializeIntermediateLog json [k \<mapsto> v] [] = []"
    if "k \<noteq> ''log''" for json k v
    using that by (simp add: deserializeIntermediateLog_def)
  have c1: "call ?env ?self sample_plugin [''string'' \<mapsto> ''m'', ''category'' \<mapsto> ''event'']
      = (Status2 0 ''Logging disabled to secondary plugins'', sample_plugin, [])"
    using secondary secondary_plugins_get_status_only [where env = ?env and self = ?self
        and this = sample_plugin
        and request = "[''string'' \<mapsto> ''m'', ''category'' \<mapsto> ''event'']"]
    by simp
  have c2: "call ?env ?self sample_plugin [''snapshot'' \<mapsto> ''j'']
      = (Status2 0 ''Logging disabled to secondary plugins'', sample_plugin, [])"
    using secondary secondary_plugins_get_status_only [where env = ?env and self = ?self
        and this = sample_plugin and request = "[''snapshot'' \<mapsto> ''j'']"]
    by simp
  have c3: "call ?env ?self sample_plugin [''init'' \<mapsto> ''osqueryd'']
      = (Status1 0, setProcessName ''osqueryd'' sample_plugin, [Init ''osqueryd'' []])"
    using secondary_plugins_get_status_only [where env = ?env and self = ?self
        and this = sample_plugin and request = "[''init'' \<mapsto> ''osqueryd'']"
        and n = "''osqueryd''"]
    by (simp add: no_log)
  have c4: "call ?env ?self sample_plugin [''status'' \<mapsto> ''true'']
      = (Status2 0 ''status'', sample_plugin, [LogStatus []])"
    using secondary_plugins_get_status_only [where env = ?env and self = ?self
        and this = sample_plugin and request = "[''status'' \<mapsto> ''true'']"
        and v = "''true''"]
    by (simp add: no_log) (simp add: sample_plugin_def)
  have c5: "call ?env ?self sample_plugin [''event'' \<mapsto> ''e'']
      = (Status2 0 ''event'', sample_plugin, [LogEvent ''e''])"
    using secondary_plugins_get_status_only [where env = ?env and self = ?self
        and this = sample_plugin and request = "[''event'' \<mapsto> ''e'']" and e = "''e''"]
    by simp (simp add: sample_plugin_def)
  show ?thesis
    using c1 c2 c3 c4 c5 by blast
qed

subsection \<open>Logging query results\<close>

lemma log_json_items_skips:
  "log_json_items env receiver json_items status calls
     = log_json_items env receiver
         (filter (\<lambda>json. json \<noteq> [] \<and> last json = CHR 0x0A) json_items) status calls"
  by (induction json_items arbitrary: status calls) (simp_all split: prod.splits)

lemma log_json_items_calls:
  "\<not> FLAGS_disable_logging env \<Longrightarrow>
   snd (log_json_items env receiver json_items status calls)
     = calls @ map (\<lambda>json. Call_logger_item receiver
                      [''string'' \<mapsto> butlast json, ''category'' \<mapsto> ''event''])
                 (filter (\<lambda>json. json \<noteq> [] \<and> last json = CHR 0x0A) json_items)"
  by (induction json_items arbitrary: status calls)
    (simp_all add: logString_def Registry_call_def)

text \<open>
  C10. The loop of \<open>logQueryLogItem\<close> does exactly what it would do on the items that
  are not empty and end in a newline: every other item is skipped, with no call and no
  change of the status. With logging not disabled, in the mode that logs results as
  events and with a serialization that succeeded, the registry is called once for each
  item ending in a newline, in order, with the item less its newline as \<^verbatim>\<open>string\<close> and
  \<^verbatim>\<open>event\<close> as \<^verbatim>\<open>category\<close>; the result is the one the serializer would have caused had
  it left the other items out, and when no item ends in a newline it is the serializer's
  own successful status, with no call made.
\<close>

theorem logQueryLogItem_forwards_newline_items:
  "log_json_items env receiver json_items status calls
     = log_json_items env receiver
         (filter (\<lambda>json. json \<noteq> [] \<and> last json = CHR 0x0A) json_items) status calls
   \<and> (filter (\<lambda>json. json \<noteq> [] \<and> last json = CHR 0x0A) json_items = [] \<longrightarrow>
        log_json_items env receiver json_items status calls = (status, calls))
   \<and> (\<not> FLAGS_disable_logging env \<and> FLAGS_log_result_events env
        \<and> events_json results = (status, json_items) \<and> ok status \<longrightarrow>
        snd (logQueryLogItem env events_json item_json results receiver calls)
          = calls @ map (\<lambda>json. Call_logger_item receiver
                           [''string'' \<mapsto> butlast json, ''category'' \<mapsto> ''event''])
                      (filter (\<lambda>json. json \<noteq> [] \<and> last json = CHR 0x0A) json_items)
        \<and> logQueryLogItem env events_json item_json results receiver calls
          = logQueryLogItem env
              (\<lambda>q. (status, filter (\<lambda>json. json \<noteq> [] \<and> last json = CHR 0x0A) json_items))
              item_json results receiver calls
        \<and> (filter (\<lambda>json. json \<noteq> [] \<and> last json = CHR 0x0A) json_items = [] \<longrightarrow>
             logQueryLogItem env events_json item_json results receiver calls
               = (status, calls)))"
proof -
  let ?ends = "\<lambda>json :: string. json \<noteq> [] \<and> last json = CHR 0x0A"
  have skips: "log_json_items env receiver json_items status calls
      = log_json_items env receiver (filter ?ends json_items) status calls"
    by (rule log_json_items_skips)
  have none: "log_json_items env receiver json_items status calls = (status, calls)"
    if "filter ?ends json_items = []"
    using that skips by simp
  have whole: "logQueryLogItem env events_json item_json results receiver calls
      = log_json_items env receiver json_items status calls"
    if "\<not> FLAGS_disable_logging env" "FLAGS_log_result_events env"
       "events_json results = (status, json_items)" "ok status"
    using that by (simp add: logQueryLogItem_def)
  have filtered: "logQueryLogItem env (\<lambda>q. (status, filter ?ends json_items)) item_json
        results receiver calls
      = log_json_items env receiver (filter ?ends json_items) status calls"
    if "\<not> FLAGS_disable_logging env" "FLAGS_log_result_events env" "ok status"
    using that by (simp add: logQueryLogItem_def)
  have calls: "snd (log_json_items env receiver json_items status calls)
      = calls @ map (\<lambda>json. Call_logger_item receiver
                       [''string'' \<mapsto> butlast json, ''category'' \<mapsto> ''event''])
                  (filter ?ends json_items)"
    if "\<not> FLAGS_disable_logging env"
    using that by (rule log_json_items_calls)
  show ?thesis
    using skips none whole filtered calls by (simp del: filter_True filter_False)
qed

theorem logQueryLogItem_forwards_newline_items_witness:
  "snd (logQueryLogItem (sample_env\<lparr>FLAGS_log_result_events := True\<rparr>)
      (\<lambda>q :: unit. (Status1 0, [''{\"a\":\"1\"}'' @ [CHR 0x0A], ''{\"b\":\"2\"}'', [],
         ''{\"c\":\"3\"}'' @ [CHR 0x0A]]))
      (\<lambda>q. (Status1 0, [])) () ''filesystem'' [])
     = [Call_logger_item ''filesystem'' [''string'' \<mapsto> ''{\"a\":\"1\"}'', ''category'' \<mapsto> ''event''],
        Call_logger_item ''filesystem'' [''string'' \<mapsto> ''{\"c\":\"3\"}'', ''category'' \<mapsto> ''event'']]
   \<and> logQueryLogItem (sample_env\<lparr>FLAGS_log_result_events := True\<rparr>)
      (\<lambda>q :: unit. (Status1 0, [''{\"b\":\"2\"}'', []]))
      (\<lambda>q. (Status1 0, [])) () ''filesystem'' []
     = (Status1 0, [])"
proof -
  let ?env = "sample_env\<lparr>FLAGS_log_result_events := True\<rparr>"
  have flags: "\<not> FLAGS_disable_logging ?env" "FLAGS_log_result_events ?env" "ok (Status1 0)"
    by (simp_all add: sample_env_def ok_def Status1_def)
  have forwarded: "snd (logQueryLogItem ?env
      (\<lambda>q :: unit. (Status1 0, [''{\"a\":\"1\"}'' @ [CHR 0x0A], ''{\"b\":\"2\"}'', [],
         ''{\"c\":\"3\"}'' @ [CHR 0x0A]]))
      (\<lambda>q. (Status1 0, [])) () ''filesystem'' [])
     = [Call_logger_item ''filesystem'' [''string'' \<mapsto> ''{\"a\":\"1\"}'', ''category'' \<mapsto> ''event''],
        Call_logger_item ''filesystem'' [''string'' \<mapsto> ''{\"c\":\"3\"}'', ''category'' \<mapsto> ''event'']]"
    using flags
      logQueryLogItem_forwards_newline_items [where env = ?env
        and events_json = "\<lambda>q :: unit. (Status1 0, [''{\"a\":\"1\"}'' @ [CHR 0x0A], ''{\"b\":\"2\"}'',
           [], ''{\"c\":\"3\"}'' @ [CHR 0x0A]])"
        and item_json = "\<lambda>q. (Status1 0, [])" and results = "()"
        and receiver = "''filesystem''" and calls = "[]" and status = "Status1 0"
        and json_items = "[''{\"a\":\"1\"}'' @ [CHR 0x0A], ''{\"b\":\"2\"}'', [],
           ''{\"c\":\"3\"}'' @ [CHR 0x0A]]",
        THEN conjunct2, THEN conjunct2, THEN mp, THEN conjunct1]
    by simp
  have omitted: "logQueryLogItem ?env
      (\<lambda>q :: unit. (Status1 0, [''{\"b\":\"2\"}'', []]))
      (\<lambda>q. (Status1 0, [])) () ''filesystem'' []
     = (Status1 0, [])"
    using flags
      logQueryLogItem_forwards_newline_items [where env = ?env
        and events_json = "\<lambda>q :: unit. (Status1 0, [''{\"b\":\"2\"}'', []])"
        and item_json = "\<lambda>q. (Status1 0, [])" and results = "()"
        and receiver = "''filesystem''" and calls = "[]" and status = "Status1 0"
        and json_items = "[''{\"b\":\"2\"}'', []]",
        THEN conjunct2, THEN conjunct2, THEN mp, THEN conjunct2, THEN conjunct2, THEN mp]
    by simp
  show ?thesis
    using forwarded omitted by blast
qed

end
